theory Spec2Isabelle
  imports Complex_Main "HOL-Library.Word" "HOL-Library.Monad_Syntax" "HOL-Library.Stream"
    "HOL-Library.Signed_Division"
begin

unbundle bit_operations_syntax

chapter \<open>nanoSAT: a shallow embedding of the solver and its loader\<close>

section \<open>Restart policy (restart.hpp)\<close>

text \<open>
  \<^verbatim>\<open>luby(double y, int x)\<close> works on C++ \<^verbatim>\<open>int\<close>s. They are modelled as mathematical
  integers with the 32-bit range written out: an operation whose result leaves the range
  (signed overflow) or a remainder by zero is undefined behaviour, and the model then has no
  result (\<open>None\<close>). \<open>smod\<close> is the truncating remainder of C++, \<open>div 2\<close> the arithmetic
  right shift. The two loops are the \<^verbatim>\<open>for\<close> and the \<^verbatim>\<open>while\<close> of the source; a loop that does
  not return has the value \<open>None\<close>. A \<^verbatim>\<open>double\<close> is modelled as a real number: rounding is
  not part of the model.
\<close>

definition in_int :: "int \<Rightarrow> bool" where
  "in_int v \<longleftrightarrow> - 2147483648 \<le> v \<and> v \<le> 2147483647"

partial_function (option) luby_grow :: "int \<Rightarrow> int \<Rightarrow> int \<Rightarrow> (int \<times> int) option" where
  "luby_grow x sz seq =
     (if \<not> in_int (x + 1) then None
      else if sz < x + 1 then
        (if in_int (seq + 1) \<and> in_int (2 * sz) \<and> in_int (2 * sz + 1)
         then luby_grow x (2 * sz + 1) (seq + 1) else None)
      else Some (sz, seq))"

partial_function (option) luby_shrink :: "int \<Rightarrow> int \<Rightarrow> int \<Rightarrow> int option" where
  "luby_shrink x sz seq =
     (if \<not> in_int (sz - 1) then None
      else if sz - 1 \<noteq> x then
        (let sz' = (sz - 1) div 2 in
         if in_int (seq - 1) \<and> sz' \<noteq> 0
         then luby_shrink (x smod sz') sz' (seq - 1) else None)
      else Some seq)"

definition luby :: "real \<Rightarrow> int \<Rightarrow> real option" where
  "luby y x = do {
     (sz, seq) \<leftarrow> luby_grow x 1 0;
     seq' \<leftarrow> luby_shrink x sz seq;
     Some (y powi seq')
   }"

fun luby_block :: "nat \<Rightarrow> nat list" where
  "luby_block 0 = [0]"
| "luby_block (Suc k) = luby_block k @ luby_block k @ [Suc k]"

definition luby_exponent :: "nat \<Rightarrow> nat" where
  "luby_exponent x = luby_block x ! x"

section \<open>Data model (clauses.hpp)\<close>

text \<open>
  A \<^verbatim>\<open>std::vector\<close> is a list. Reading or writing a vector out of range (\<^verbatim>\<open>operator[]\<close> is
  undefined behaviour there, \<^verbatim>\<open>at()\<close> throws) and a failed \<^verbatim>\<open>assert\<close> have no result: the
  solver's functions return an \<open>option\<close>, and \<open>None\<close> stands for a run that does not return
  normally (an abort, undefined behaviour, or a loop that runs forever).
\<close>

definition vec_at :: "'a list \<Rightarrow> nat \<Rightarrow> 'a option" where
  "vec_at xs i = (if i < length xs then Some (xs ! i) else None)"

definition vec_set :: "'a list \<Rightarrow> nat \<Rightarrow> 'a \<Rightarrow> 'a list option" where
  "vec_set xs i v = (if i < length xs then Some (xs[i := v]) else None)"

definition vec_resize :: "nat \<Rightarrow> 'a \<Rightarrow> 'a list \<Rightarrow> 'a list" where
  "vec_resize n d xs = take n xs @ replicate (n - length xs) d"

definition assertion :: "bool \<Rightarrow> unit option" where
  "assertion b = (if b then Some () else None)"

datatype VariableValue = FALSE | TRUE | UNSET

text \<open>The converting constructor \<^verbatim>\<open>VariableValue(bool sign)\<close>.\<close>

definition VariableValue_of :: "bool \<Rightarrow> VariableValue" where
  "VariableValue_of sign = (if sign then TRUE else FALSE)"

text \<open>
  A literal is the \<^verbatim>\<open>uint32\<close> \<open>x = 2 * variable + polarity\<close>; a clause reference is the
  \<^verbatim>\<open>uint32\<close> \<open>x = 2 * index + is_learned\<close>. Both have the invalid value \<open>-1\<close>. A variable is used
  as an index only, and is a natural number here.
\<close>

type_synonym Literal = "32 word"
type_synonym ClauseRef = "32 word"

definition INVALID :: "32 word" where
  "INVALID = - 1"

definition Literal_of :: "32 word \<Rightarrow> bool \<Rightarrow> Literal" where
  "Literal_of variable pol = 2 * variable + of_bool pol"

definition negate :: "Literal \<Rightarrow> Literal" where
  "negate p = p XOR 1"

definition polarity :: "Literal \<Rightarrow> bool" where
  "polarity p \<longleftrightarrow> p AND 1 \<noteq> 0"

definition var :: "Literal \<Rightarrow> nat" where
  "var p = unat (drop_bit 1 p)"

definition valid :: "32 word \<Rightarrow> bool" where
  "valid x \<longleftrightarrow> x \<noteq> INVALID"

definition ClauseRef_of :: "nat \<Rightarrow> bool \<Rightarrow> ClauseRef" where
  "ClauseRef_of index is_learned = 2 * word_of_nat index + of_bool is_learned"

definition idx :: "ClauseRef \<Rightarrow> nat" where
  "idx r = unat (drop_bit 1 r)"

definition isLearned :: "ClauseRef \<Rightarrow> bool" where
  "isLearned r \<longleftrightarrow> r AND 1 \<noteq> 0"

text \<open>The clause arena \<^verbatim>\<open>Clauses\<close>: the clauses, the free slots and the activities.\<close>

record Clauses =
  cl_clauses :: "Literal list list"
  free_indices_clauses :: "nat list"
  activities :: "real list"

definition Clauses_init :: Clauses where
  "Clauses_init = \<lparr>cl_clauses = [], free_indices_clauses = [], activities = []\<rparr>"

definition Clauses_size :: "Clauses \<Rightarrow> nat" where
  "Clauses_size c = length (cl_clauses c)"

definition Clauses_addClause :: "Literal list \<Rightarrow> bool \<Rightarrow> Clauses \<Rightarrow> (ClauseRef \<times> Clauses) option" where
  "Clauses_addClause literals is_learned_clause c =
     (if free_indices_clauses c \<noteq> [] then do {
        let i = last (free_indices_clauses c);
        cs \<leftarrow> vec_set (cl_clauses c) i literals;
        acts \<leftarrow> vec_set (activities c) i 0;
        Some (ClauseRef_of i is_learned_clause,
          c\<lparr>cl_clauses := cs, free_indices_clauses := butlast (free_indices_clauses c),
            activities := acts\<rparr>)
      } else
        Some (ClauseRef_of (length (cl_clauses c)) is_learned_clause,
          c\<lparr>cl_clauses := cl_clauses c @ [literals], activities := activities c @ [0]\<rparr>))"

definition Clauses_removeClause :: "ClauseRef \<Rightarrow> Clauses \<Rightarrow> Clauses option" where
  "Clauses_removeClause clause_ref c =
     (if cl_clauses c \<noteq> [] \<and> idx clause_ref = length (cl_clauses c) - 1 then do {
        assertion (activities c \<noteq> []);
        Some (c\<lparr>cl_clauses := butlast (cl_clauses c), activities := butlast (activities c)\<rparr>)
      } else do {
        cs \<leftarrow> vec_set (cl_clauses c) (idx clause_ref) [];
        acts \<leftarrow> vec_set (activities c) (idx clause_ref) 0;
        Some (c\<lparr>cl_clauses := cs, activities := acts,
          free_indices_clauses := free_indices_clauses c @ [idx clause_ref]\<rparr>)
      })"

definition Clauses_at :: "Clauses \<Rightarrow> ClauseRef \<Rightarrow> Literal list option" where
  "Clauses_at c clause_ref = do {
     assertion (valid clause_ref);
     vec_at (cl_clauses c) (idx clause_ref)
   }"

definition Clauses_activity :: "Clauses \<Rightarrow> ClauseRef \<Rightarrow> real option" where
  "Clauses_activity c clause_ref = do {
     assertion (valid clause_ref);
     vec_at (activities c) (idx clause_ref)
   }"

record Watch =
  clause_ref :: ClauseRef
  blocker :: Literal

record VariableMetadata =
  reason_clause_idx :: ClauseRef
  decision_level :: nat

section \<open>The solver state (solver.hpp)\<close>

datatype SolverExitCode = UNKNOWN | SAT | UNSAT

definition exit_code_int :: "SolverExitCode \<Rightarrow> int" where
  "exit_code_int c = (case c of UNKNOWN \<Rightarrow> 0 | SAT \<Rightarrow> 10 | UNSAT \<Rightarrow> 20)"

record SolverStatistics =
  num_variables :: "64 word"
  num_clauses :: "64 word"
  num_literals_in_clauses :: "64 word"
  num_learned_clauses :: "64 word"
  num_literals_in_learned_clauses :: "64 word"
  num_restarts :: "64 word"
  num_decisions :: "64 word"
  num_total_conflicts :: "64 word"
  num_propagations :: "64 word"

definition SolverStatistics_init :: SolverStatistics where
  "SolverStatistics_init = \<lparr>num_variables = 0, num_clauses = 0, num_literals_in_clauses = 0,
     num_learned_clauses = 0, num_literals_in_learned_clauses = 0, num_restarts = 0,
     num_decisions = 0, num_total_conflicts = 0, num_propagations = 0\<rparr>"

text \<open>
  The fields of \<^verbatim>\<open>class Solver\<close>. The \<^verbatim>\<open>uint32\<close> trail offsets, the propagation head and the
  decision levels index the trail and are natural numbers; the \<^verbatim>\<open>uint64\<close> counters are words.
  \<^verbatim>\<open>std::mt19937\<close>, \<^verbatim>\<open>std::uniform_int_distribution\<close> and \<^verbatim>\<open>std::shuffle\<close> belong to the C++
  library: the generator is a parameter of the model, the stream of the numbers it will
  produce, and every statement about the solver holds for every such stream.
\<close>

record Solver =
  clauses :: Clauses
  learned_clauses :: Clauses
  trail :: "Literal list"
  trail_separators :: "nat list"
  trail_propagation_head :: nat
  variable_values :: "VariableValue list"
  variable_polarity :: "bool list"
  variable_metadata :: "VariableMetadata list"
  literals_watched_by :: "Watch list list"
  unset_variables :: "nat list"
  clause_activity_increment :: real
  max_learned_clauses :: real
  learned_size_adjust_on_conflict :: real
  learned_size_adjust_count :: "64 word"
  random_gen :: "nat stream"
  stats :: SolverStatistics

definition Solver_init :: "nat stream \<Rightarrow> Solver" where
  "Solver_init gen = \<lparr>clauses = Clauses_init, learned_clauses = Clauses_init, trail = [],
     trail_separators = [], trail_propagation_head = 0, variable_values = [],
     variable_polarity = [], variable_metadata = [], literals_watched_by = [],
     unset_variables = [], clause_activity_increment = 1, max_learned_clauses = 0,
     learned_size_adjust_on_conflict = 100, learned_size_adjust_count = 100,
     random_gen = gen, stats = SolverStatistics_init\<rparr>"

text \<open>The constants of options.hpp.\<close>

definition CLAUSE_ACTIVITY_DECAY :: real where "CLAUSE_ACTIVITY_DECAY = 999 / 1000"
definition MAX_LEARNED_CLAUSES_FACTOR :: real where "MAX_LEARNED_CLAUSES_FACTOR = 1 / 3"
definition MAX_LEARNED_CLAUSES_INCREMENT :: real where "MAX_LEARNED_CLAUSES_INCREMENT = 11 / 10"
definition MAX_LEARNED_ADJUST_INCREMENT :: real where "MAX_LEARNED_ADJUST_INCREMENT = 3 / 2"
definition RESTART_FIRST :: int where "RESTART_FIRST = 100"
definition RESTART_INC :: real where "RESTART_INC = 2"

text \<open>\<^verbatim>\<open>numVariables()\<close> and \<^verbatim>\<open>numClauses()\<close> return the 64-bit counters as \<^verbatim>\<open>uint32\<close>.\<close>

definition numVariables :: "Solver \<Rightarrow> 32 word" where
  "numVariables s = ucast (num_variables (stats s))"

definition numClauses :: "Solver \<Rightarrow> 32 word" where
  "numClauses s = ucast (num_clauses (stats s))"

definition createVariables :: "32 word \<Rightarrow> Solver \<Rightarrow> Solver" where
  "createVariables n s =
     (let s1 = s\<lparr>stats := (stats s)\<lparr>num_variables := ucast n\<rparr>\<rparr>;
          nv = unat (numVariables s1)
      in s1\<lparr>variable_values := vec_resize nv UNSET (variable_values s1),
            variable_polarity := vec_resize nv False (variable_polarity s1),
            variable_metadata := vec_resize nv
              \<lparr>reason_clause_idx = INVALID, decision_level = 0\<rparr> (variable_metadata s1),
            literals_watched_by := vec_resize (unat (numVariables s1 * 2)) []
              (literals_watched_by s1)\<rparr>)"

definition model :: "Solver \<Rightarrow> VariableValue list" where
  "model s = variable_values s"

definition decisionLevel :: "Solver \<Rightarrow> nat" where
  "decisionLevel s = length (trail_separators s)"

definition clauseAt :: "Solver \<Rightarrow> ClauseRef \<Rightarrow> Literal list option" where
  "clauseAt s r = (if isLearned r then Clauses_at (learned_clauses s) r else Clauses_at (clauses s) r)"

text \<open>A write through the reference that \<^verbatim>\<open>clauseAt\<close> returned.\<close>

definition set_clauseAt :: "ClauseRef \<Rightarrow> Literal list \<Rightarrow> Solver \<Rightarrow> Solver option" where
  "set_clauseAt r c s = do {
     assertion (valid r);
     if isLearned r then do {
       cs \<leftarrow> vec_set (cl_clauses (learned_clauses s)) (idx r) c;
       Some (s\<lparr>learned_clauses := (learned_clauses s)\<lparr>cl_clauses := cs\<rparr>\<rparr>)
     } else do {
       cs \<leftarrow> vec_set (cl_clauses (clauses s)) (idx r) c;
       Some (s\<lparr>clauses := (clauses s)\<lparr>cl_clauses := cs\<rparr>\<rparr>)
     }
   }"

definition literalTrue :: "Solver \<Rightarrow> Literal \<Rightarrow> bool option" where
  "literalTrue s literal = do {
     v \<leftarrow> vec_at (variable_values s) (var literal);
     Some (v = VariableValue_of (polarity literal))
   }"

definition literalFalse :: "Solver \<Rightarrow> Literal \<Rightarrow> bool option" where
  "literalFalse s literal = do {
     v \<leftarrow> vec_at (variable_values s) (var literal);
     Some (v = VariableValue_of (\<not> polarity literal))
   }"

definition isLockedClause :: "Solver \<Rightarrow> ClauseRef \<Rightarrow> bool option" where
  "isLockedClause s r = do {
     clause \<leftarrow> clauseAt s r;
     c0 \<leftarrow> vec_at clause 0;
     t \<leftarrow> literalTrue s c0;
     if t then do {
       md \<leftarrow> vec_at (variable_metadata s) (var c0);
       Some (valid (reason_clause_idx md) \<and> reason_clause_idx md = r)
     } else Some False
   }"

definition assignLiteral :: "Literal \<Rightarrow> ClauseRef \<Rightarrow> Solver \<Rightarrow> Solver option" where
  "assignLiteral literal reason s = do {
     v \<leftarrow> vec_at (variable_values s) (var literal);
     assertion (v = UNSET);
     vals \<leftarrow> vec_set (variable_values s) (var literal) (VariableValue_of (polarity literal));
     mds \<leftarrow> vec_set (variable_metadata s) (var literal)
       \<lparr>reason_clause_idx = reason, decision_level = decisionLevel s\<rparr>;
     Some (s\<lparr>variable_values := vals, variable_metadata := mds, trail := trail s @ [literal]\<rparr>)
   }"

text \<open>
  \<^verbatim>\<open>revertTrail\<close>: the loop runs over the trail from its end down to
  \<^verbatim>\<open>trail_separators[level]\<close>; \<open>revert_entries\<close> is that loop, over the entries in the order the
  loop visits them.
\<close>

fun revert_entries :: "Literal list \<Rightarrow> Solver \<Rightarrow> Solver option" where
  "revert_entries [] s = Some s"
| "revert_entries (literal_to_revert # rest) s = do {
     vals \<leftarrow> vec_set (variable_values s) (var literal_to_revert) UNSET;
     pols \<leftarrow> vec_set (variable_polarity s) (var literal_to_revert) (polarity literal_to_revert);
     revert_entries rest (s\<lparr>variable_values := vals, variable_polarity := pols,
       unset_variables := unset_variables s @ [var literal_to_revert]\<rparr>)
   }"

definition revertTrail :: "nat \<Rightarrow> Solver \<Rightarrow> Solver option" where
  "revertTrail level s =
     (if decisionLevel s > level then do {
        sep \<leftarrow> vec_at (trail_separators s) level;
        s1 \<leftarrow> revert_entries (rev (drop sep (trail s))) s;
        Some (s1\<lparr>trail_propagation_head := sep,
          trail := vec_resize sep INVALID (trail s1),
          trail_separators := take level (trail_separators s1)\<rparr>)
      } else Some s)"

text \<open>
  \<^verbatim>\<open>removeWatch\<close> finds the first watch of the clause (watches are equal when their clause
  references are), asserts that there is one, and closes the gap.
\<close>

fun removeWatch :: "Watch list \<Rightarrow> Watch \<Rightarrow> Watch list option" where
  "removeWatch [] watch_to_remove = None"
| "removeWatch (w # watches) watch_to_remove =
     (if clause_ref w = clause_ref watch_to_remove then Some watches
      else map_option ((#) w) (removeWatch watches watch_to_remove))"

definition push_watch :: "Literal \<Rightarrow> Watch \<Rightarrow> Solver \<Rightarrow> Solver option" where
  "push_watch key w s = do {
     ws \<leftarrow> vec_at (literals_watched_by s) (unat key);
     Some (s\<lparr>literals_watched_by := (literals_watched_by s)[unat key := ws @ [w]]\<rparr>)
   }"

definition attachClause :: "Literal list \<Rightarrow> bool \<Rightarrow> Solver \<Rightarrow> (ClauseRef \<times> Solver) option" where
  "attachClause literals is_learned s = do {
     first_literal \<leftarrow> vec_at literals 0;
     second_literal \<leftarrow> vec_at literals 1;
     (r, s1) \<leftarrow>
       (if is_learned then do {
          (r, c) \<leftarrow> Clauses_addClause literals True (learned_clauses s);
          Some (r, s\<lparr>learned_clauses := c,
            stats := (stats s)\<lparr>num_learned_clauses := num_learned_clauses (stats s) + 1,
              num_literals_in_learned_clauses :=
                num_literals_in_learned_clauses (stats s) + word_of_nat (length literals)\<rparr>\<rparr>)
        } else do {
          (r, c) \<leftarrow> Clauses_addClause literals False (clauses s);
          Some (r, s\<lparr>clauses := c,
            stats := (stats s)\<lparr>num_clauses := num_clauses (stats s) + 1,
              num_literals_in_clauses :=
                num_literals_in_clauses (stats s) + word_of_nat (length literals)\<rparr>\<rparr>)
        });
     s2 \<leftarrow> push_watch (negate first_literal) \<lparr>clause_ref = r, blocker = second_literal\<rparr> s1;
     s3 \<leftarrow> push_watch (negate second_literal) \<lparr>clause_ref = r, blocker = first_literal\<rparr> s2;
     Some (r, s3)
   }"

definition remove_watch_of :: "Literal \<Rightarrow> Watch \<Rightarrow> Solver \<Rightarrow> Solver option" where
  "remove_watch_of key w s = do {
     ws \<leftarrow> vec_at (literals_watched_by s) (unat key);
     ws' \<leftarrow> removeWatch ws w;
     Some (s\<lparr>literals_watched_by := (literals_watched_by s)[unat key := ws']\<rparr>)
   }"

definition detachClause :: "ClauseRef \<Rightarrow> Solver \<Rightarrow> Solver option" where
  "detachClause r s = do {
     clause \<leftarrow> clauseAt s r;
     c0 \<leftarrow> vec_at clause 0;
     c1 \<leftarrow> vec_at clause 1;
     s1 \<leftarrow> remove_watch_of (negate c0) \<lparr>clause_ref = r, blocker = c1\<rparr> s;
     s2 \<leftarrow> remove_watch_of (negate c1) \<lparr>clause_ref = r, blocker = c0\<rparr> s1;
     locked \<leftarrow> isLockedClause s2 r;
     s3 \<leftarrow>
       (if locked then do {
          md \<leftarrow> vec_at (variable_metadata s2) (var c0);
          Some (s2\<lparr>variable_metadata :=
            (variable_metadata s2)[var c0 := md\<lparr>reason_clause_idx := INVALID\<rparr>]\<rparr>)
        } else Some s2);
     if isLearned r then do {
       c \<leftarrow> Clauses_removeClause r (learned_clauses s3);
       Some (s3\<lparr>learned_clauses := c,
         stats := (stats s3)\<lparr>num_learned_clauses := num_learned_clauses (stats s3) - 1,
           num_literals_in_learned_clauses :=
             num_literals_in_learned_clauses (stats s3) - word_of_nat (length clause)\<rparr>\<rparr>)
     } else do {
       c \<leftarrow> Clauses_removeClause r (clauses s3);
       Some (s3\<lparr>clauses := c,
         stats := (stats s3)\<lparr>num_clauses := num_clauses (stats s3) - 1,
           num_literals_in_clauses :=
             num_literals_in_clauses (stats s3) - word_of_nat (length clause)\<rparr>\<rparr>)
     }
   }"

section \<open>Unit propagation\<close>

text \<open>The search for a new watch: the first position \<open>k \<ge> 2\<close> whose literal is not false.\<close>

fun find_new_watch :: "Solver \<Rightarrow> Literal list \<Rightarrow> nat \<Rightarrow> nat option option" where
  "find_new_watch s [] k = Some None"
| "find_new_watch s (literal # rest) k = do {
     f \<leftarrow> literalFalse s literal;
     if \<not> f then Some (Some k) else find_new_watch s rest (k + 1)
   }"

definition set_watch :: "Literal \<Rightarrow> nat \<Rightarrow> Watch \<Rightarrow> Solver \<Rightarrow> Solver option" where
  "set_watch key j w s = do {
     ws \<leftarrow> vec_at (literals_watched_by s) (unat key);
     ws' \<leftarrow> vec_set ws j w;
     Some (s\<lparr>literals_watched_by := (literals_watched_by s)[unat key := ws']\<rparr>)
   }"

text \<open>The loop that copies the remaining watches after a conflict.\<close>

function copy_watches :: "Watch list \<Rightarrow> nat \<Rightarrow> nat \<Rightarrow> (Watch list \<times> nat \<times> nat) option" where
  "copy_watches ws i j =
     (if i < length ws then do {
        ws' \<leftarrow> vec_set ws j (ws ! i);
        copy_watches ws' (i + 1) (j + 1)
      } else Some (ws, i, j))"
  by pat_completeness auto
termination
  by (relation "measure (\<lambda>(ws, i, j). length ws - i)") (auto simp: vec_set_def split: if_splits)

declare copy_watches.simps [simp del]

text \<open>
  One pass through the body of the inner loop of \<^verbatim>\<open>propagate\<close>, for the watch at position
  \<open>i\<close> of the watches of the literal \<open>p\<close> (the reference \<^verbatim>\<open>watches\<close> is
  \<open>literals_watched_by s ! unat p\<close>). It returns the cursors \<open>i\<close> and \<open>j\<close>, the conflict and the
  state with which the loop goes on.
\<close>

definition visit_watch ::
  "Literal \<Rightarrow> nat \<Rightarrow> nat \<Rightarrow> ClauseRef \<Rightarrow> Solver \<Rightarrow> (nat \<times> nat \<times> ClauseRef \<times> Solver) option" where
  "visit_watch p i j conflict s = do {
     watches \<leftarrow> vec_at (literals_watched_by s) (unat p);
     w \<leftarrow> vec_at watches i;
     blocker_true \<leftarrow> literalTrue s (blocker w);
     if blocker_true then do {
       s1 \<leftarrow> set_watch p j w s;
       Some (i + 1, j + 1, conflict, s1)
     } else do {
       clause0 \<leftarrow> clauseAt s (clause_ref w);
       let not_literal = negate p;
       c0 \<leftarrow> vec_at clause0 0;
       clause \<leftarrow>
         (if c0 = not_literal then do {
            c1 \<leftarrow> vec_at clause0 1;
            Some (clause0[0 := c1, 1 := not_literal])
          } else Some clause0);
       c1 \<leftarrow> vec_at clause 1;
       assertion (c1 = not_literal);
       s1 \<leftarrow> set_clauseAt (clause_ref w) clause s;
       first_literal \<leftarrow> vec_at clause 0;
       let new_watch = \<lparr>clause_ref = clause_ref w, blocker = first_literal\<rparr>;
       first_true \<leftarrow>
         (if first_literal \<noteq> blocker w then literalTrue s1 first_literal else Some False);
       if first_true then do {
         s2 \<leftarrow> set_watch p j new_watch s1;
         Some (i + 1, j + 1, conflict, s2)
       } else do {
         found \<leftarrow> find_new_watch s1 (drop 2 clause) 2;
         case found of
           Some k \<Rightarrow> do {
             s2 \<leftarrow> set_clauseAt (clause_ref w) (clause[1 := clause ! k, k := not_literal]) s1;
             s3 \<leftarrow> push_watch (negate (clause ! k)) new_watch s2;
             Some (i + 1, j, conflict, s3)
           }
         | None \<Rightarrow> do {
             s2 \<leftarrow> set_watch p j new_watch s1;
             first_false \<leftarrow> literalFalse s2 first_literal;
             if first_false then do {
               let s3 = s2\<lparr>trail_propagation_head := length (trail s2)\<rparr>;
               ws \<leftarrow> vec_at (literals_watched_by s3) (unat p);
               (ws', i', j') \<leftarrow> copy_watches ws (i + 1) (j + 1);
               Some (i', j', clause_ref w,
                 s3\<lparr>literals_watched_by := (literals_watched_by s3)[unat p := ws']\<rparr>)
             } else do {
               s3 \<leftarrow> assignLiteral first_literal (clause_ref w) s2;
               Some (i + 1, j + 1, conflict, s3)
             }
           }
       }
     }
   }"

text \<open>The inner loop of \<^verbatim>\<open>propagate\<close>; it returns the write cursor \<open>j\<close>.\<close>

partial_function (option) propagate_watches ::
  "Literal \<Rightarrow> nat \<Rightarrow> nat \<Rightarrow> ClauseRef \<Rightarrow> Solver \<Rightarrow> (nat \<times> ClauseRef \<times> Solver) option" where
  "propagate_watches p i j conflict s = do {
     watches \<leftarrow> vec_at (literals_watched_by s) (unat p);
     if i < length watches then do {
       (i', j', conflict', s') \<leftarrow> visit_watch p i j conflict s;
       propagate_watches p i' j' conflict' s'
     } else Some (j, conflict, s)
   }"

text \<open>
  The body of the outer loop of \<^verbatim>\<open>propagate\<close>: take the literal at the propagation head, walk
  its watches, cut the watch list at the write cursor.
\<close>

definition propagate_literal :: "ClauseRef \<Rightarrow> Solver \<Rightarrow> (ClauseRef \<times> Solver) option" where
  "propagate_literal conflict s = do {
     literal_to_propagate \<leftarrow> vec_at (trail s) (trail_propagation_head s);
     let s1 = s\<lparr>trail_propagation_head := trail_propagation_head s + 1\<rparr>;
     assertion (unat literal_to_propagate < length (literals_watched_by s1));
     let s2 = s1\<lparr>stats := (stats s1)\<lparr>num_propagations := num_propagations (stats s1) + 1\<rparr>\<rparr>;
     (j, conflict', s3) \<leftarrow> propagate_watches literal_to_propagate 0 0 conflict s2;
     ws \<leftarrow> vec_at (literals_watched_by s3) (unat literal_to_propagate);
     Some (conflict', s3\<lparr>literals_watched_by :=
       (literals_watched_by s3)[unat literal_to_propagate := vec_resize j
         \<lparr>clause_ref = INVALID, blocker = INVALID\<rparr> ws]\<rparr>)
   }"

partial_function (option) propagate_loop :: "ClauseRef \<Rightarrow> Solver \<Rightarrow> (ClauseRef \<times> Solver) option" where
  "propagate_loop conflict s =
     (if trail_propagation_head s < length (trail s) then do {
        (conflict', s') \<leftarrow> propagate_literal conflict s;
        propagate_loop conflict' s'
      } else Some (conflict, s))"

definition propagate :: "Solver \<Rightarrow> (ClauseRef \<times> Solver) option" where
  "propagate s = propagate_loop INVALID s"

section \<open>Top-level simplification, branching and learned-clause pruning\<close>

fun isClauseSatisfied :: "Solver \<Rightarrow> Literal list \<Rightarrow> bool option" where
  "isClauseSatisfied s [] = Some False"
| "isClauseSatisfied s (literal # rest) = do {
     t \<leftarrow> literalTrue s literal;
     if t then Some True else isClauseSatisfied s rest
   }"

text \<open>
  The trimming loop of \<^verbatim>\<open>removeSatisfiedClauses\<close>: from position \<open>i\<close> on, a literal whose
  variable has the value false is overwritten by the last literal, which is popped.
\<close>

function trim_clause :: "Solver \<Rightarrow> Literal list \<Rightarrow> nat \<Rightarrow> Literal list option" where
  "trim_clause s clause i =
     (if i < length clause then do {
        v \<leftarrow> vec_at (variable_values s) (var (clause ! i));
        if v = FALSE then trim_clause s (butlast (clause[i := last clause])) i
        else trim_clause s clause (i + 1)
      } else Some clause)"
  by pat_completeness auto
termination
  by (relation "measure (\<lambda>(s, clause, i). length clause - i)") auto

declare trim_clause.simps [simp del]

definition container :: "bool \<Rightarrow> Solver \<Rightarrow> Clauses" where
  "container is_learned s = (if is_learned then learned_clauses s else clauses s)"

definition set_container :: "bool \<Rightarrow> Clauses \<Rightarrow> Solver \<Rightarrow> Solver" where
  "set_container is_learned c s = (if is_learned then s\<lparr>learned_clauses := c\<rparr> else s\<lparr>clauses := c\<rparr>)"

lemma Clauses_removeClause_size:
  "Clauses_removeClause r c = Some c' \<Longrightarrow> Clauses_size c' \<le> Clauses_size c"
  by (auto simp: Clauses_removeClause_def Clauses_size_def vec_set_def assertion_def
      split: if_splits Option.bind_splits)

lemma detachClause_size:
  assumes "detachClause r s = Some s'"
  shows "Clauses_size (container l s') \<le> Clauses_size (container l s)"
  using assms Clauses_removeClause_size
  by (fastforce simp: detachClause_def remove_watch_of_def container_def
      split: if_splits Option.bind_splits)

function removeSatisfiedClauses_loop :: "bool \<Rightarrow> nat \<Rightarrow> Solver \<Rightarrow> Solver option" where
  "removeSatisfiedClauses_loop is_learned clause_idx s =
     (if clause_idx < Clauses_size (container is_learned s) then do {
        let r = ClauseRef_of clause_idx is_learned;
        clause \<leftarrow> Clauses_at (container is_learned s) r;
        if clause = [] then removeSatisfiedClauses_loop is_learned (clause_idx + 1) s
        else do {
          sat \<leftarrow> isClauseSatisfied s clause;
          if sat then do {
            s1 \<leftarrow> detachClause r s;
            removeSatisfiedClauses_loop is_learned (clause_idx + 1) s1
          } else do {
            assertion (length clause > 1);
            v0 \<leftarrow> vec_at (variable_values s) (var (clause ! 0));
            assertion (v0 = UNSET);
            v1 \<leftarrow> vec_at (variable_values s) (var (clause ! 1));
            assertion (v1 = UNSET);
            clause' \<leftarrow> trim_clause s clause 2;
            cs \<leftarrow> vec_set (cl_clauses (container is_learned s)) (idx r) clause';
            removeSatisfiedClauses_loop is_learned (clause_idx + 1)
              (set_container is_learned ((container is_learned s)\<lparr>cl_clauses := cs\<rparr>) s)
          }
        }
      } else Some s)"
  by pat_completeness auto
termination
proof (relation "measure (\<lambda>(l, i, s). Clauses_size (container l s) - i)", goal_cases)
  case 1 show ?case by simp
next
  case 2 then show ?case by simp
next
  case (3 l i s r clause sat s1)
  then show ?case using detachClause_size [of r s s1 l] by simp
next
  case 4
  then show ?case
    by (auto simp: container_def set_container_def Clauses_size_def vec_set_def split: if_splits)
qed

declare removeSatisfiedClauses_loop.simps [simp del]

definition removeSatisfiedClauses :: "bool \<Rightarrow> Solver \<Rightarrow> Solver option" where
  "removeSatisfiedClauses is_learned s = removeSatisfiedClauses_loop is_learned 0 s"

text \<open>
  \<^verbatim>\<open>std::shuffle\<close> with the solver's generator: some permutation, chosen by the generator.
  The model draws, for every position from the last one down, the position to swap with;
  every permutation is the result for some stream.
\<close>

fun shuffle_from :: "nat \<Rightarrow> 'a list \<Rightarrow> nat stream \<Rightarrow> 'a list \<times> nat stream" where
  "shuffle_from 0 xs g = (xs, g)"
| "shuffle_from (Suc i) xs g =
     (let j = shd g mod (Suc (Suc i))
      in shuffle_from i (xs[Suc i := xs ! j, j := xs ! Suc i]) (stl g))"

definition shuffle :: "'a list \<Rightarrow> nat stream \<Rightarrow> 'a list \<times> nat stream" where
  "shuffle xs g = shuffle_from (length xs - 1) xs g"

definition simplify :: "Solver \<Rightarrow> (bool \<times> Solver) option" where
  "simplify s = do {
     assertion (decisionLevel s = 0);
     (conflict, s1) \<leftarrow> propagate s;
     if valid conflict then Some (False, s1)
     else do {
       s2 \<leftarrow> removeSatisfiedClauses True s1;
       s3 \<leftarrow> removeSatisfiedClauses False s2;
       let unset = filter (\<lambda>v. variable_values s3 ! v = UNSET) [0..<length (variable_values s3)];
       case shuffle unset (random_gen s3) of
         (shuffled, g) \<Rightarrow> Some (True, s3\<lparr>unset_variables := shuffled, random_gen := g\<rparr>)
     }
   }"

text \<open>
  \<^verbatim>\<open>pickBranchLiteral\<close>: \<^verbatim>\<open>std::uniform_int_distribution\<close> over \<open>[0, size - 1]\<close> is the next number
  of the generator modulo the size.
\<close>

function pickBranchLiteral :: "Solver \<Rightarrow> (Literal option \<times> Solver) option" where
  "pickBranchLiteral s =
     (if unset_variables s \<noteq> [] then do {
        let i = shd (random_gen s) mod length (unset_variables s);
        let v = unset_variables s ! i;
        let s1 = s\<lparr>unset_variables := butlast ((unset_variables s)[i := last (unset_variables s)]),
                   random_gen := stl (random_gen s)\<rparr>;
        val \<leftarrow> vec_at (variable_values s1) v;
        if val = UNSET then do {
          pol \<leftarrow> vec_at (variable_polarity s1) v;
          Some (Some (Literal_of (word_of_nat v) pol), s1)
        } else pickBranchLiteral s1
      } else Some (None, s))"
  by pat_completeness auto
termination
  by (relation "measure (\<lambda>s. length (unset_variables s))") auto

declare pickBranchLiteral.simps [simp del]

definition increaseClauseActivity :: "ClauseRef \<Rightarrow> Solver \<Rightarrow> Solver option" where
  "increaseClauseActivity r s = do {
     assertion (isLearned r);
     a \<leftarrow> Clauses_activity (learned_clauses s) r;
     let a' = a + clause_activity_increment s;
     let acts = (activities (learned_clauses s))[idx r := a'];
     if a' > 10 ^ 20 then do {
       let n = Clauses_size (learned_clauses s);
       assertion (n \<le> length acts);
       Some (s\<lparr>learned_clauses := (learned_clauses s)
                 \<lparr>activities := map (\<lambda>x. x * (1 / 10 ^ 20)) (take n acts) @ drop n acts\<rparr>,
               clause_activity_increment := clause_activity_increment s * (1 / 10 ^ 20)\<rparr>)
     } else Some (s\<lparr>learned_clauses := (learned_clauses s)\<lparr>activities := acts\<rparr>\<rparr>)
   }"

text \<open>
  \<^verbatim>\<open>pruneLearnedClauses\<close>. The indices of the non-empty slots are sorted by activity; only
  the activity at the middle position of the sorted vector is read, which is the same for
  every order \<^verbatim>\<open>std::sort\<close> may give to clauses of equal activity.
\<close>

definition live_learned_indices :: "Solver \<Rightarrow> nat list option" where
  "live_learned_indices s =
     map_option (\<lambda>cs. map fst (filter (\<lambda>(i, c). c \<noteq> []) (zip [0..<length cs] cs)))
       (those (map (\<lambda>i. Clauses_at (learned_clauses s) (ClauseRef_of i True))
          [0..<Clauses_size (learned_clauses s)]))"

definition prune_threshold :: "Solver \<Rightarrow> real option" where
  "prune_threshold s = do {
     learned_clause_ind \<leftarrow> live_learned_indices s;
     acts \<leftarrow> those (map (\<lambda>i. Clauses_activity (learned_clauses s) (ClauseRef_of i True))
       learned_clause_ind);
     let sorted_ind = sort_key snd (zip learned_clause_ind acts);
     (m, median) \<leftarrow> vec_at sorted_ind (length sorted_ind div 2);
     let threshold = clause_activity_increment s / real (Clauses_size (learned_clauses s));
     Some (min median threshold)
   }"

function prune_loop :: "real \<Rightarrow> nat \<Rightarrow> Solver \<Rightarrow> Solver option" where
  "prune_loop pruneThresh i s =
     (if i < Clauses_size (learned_clauses s) then do {
        let r = ClauseRef_of i True;
        clause \<leftarrow> Clauses_at (learned_clauses s) r;
        if clause = [] then prune_loop pruneThresh (i + 1) s
        else if length clause > 2 then do {
          a \<leftarrow> Clauses_activity (learned_clauses s) r;
          if a < pruneThresh then do {
            locked \<leftarrow> isLockedClause s r;
            if \<not> locked then do {
              s1 \<leftarrow> detachClause r s;
              prune_loop pruneThresh (i + 1) s1
            } else prune_loop pruneThresh (i + 1) s
          } else prune_loop pruneThresh (i + 1) s
        } else prune_loop pruneThresh (i + 1) s
      } else Some s)"
  by pat_completeness auto
termination
proof (relation "measure (\<lambda>(t, i, s). Clauses_size (learned_clauses s) - i)", goal_cases)
  case (3 t i s r clause a locked s1)
  then show ?case using detachClause_size [of r s s1 True] by (simp add: container_def)
qed simp_all

declare prune_loop.simps [simp del]

definition pruneLearnedClauses :: "Solver \<Rightarrow> Solver option" where
  "pruneLearnedClauses s = do {
     pruneThresh \<leftarrow> prune_threshold s;
     prune_loop pruneThresh 0 s
   }"

section \<open>Conflict analysis\<close>

datatype VariableStatus = VS_UNSET | IS_SOURCE | REMOVABLE | REMOVAL_FAILED

text \<open>
  The state of the first loop of \<^verbatim>\<open>analyzeConflict\<close>: the learned clause built so far, the
  trail index, the path length and the marks.
\<close>

record Analysis =
  out_learned_clause :: "Literal list"
  index :: int
  path_length :: int
  variable_seen :: "VariableStatus list"

text \<open>The \<^verbatim>\<open>for\<close> loop over the literals of the conflict clause, from position \<open>start\<close>.\<close>

fun analyze_clause :: "Solver \<Rightarrow> Literal list \<Rightarrow> Analysis \<Rightarrow> Analysis option" where
  "analyze_clause s [] a = Some a"
| "analyze_clause s (conflict_literal # rest) a = do {
     seen \<leftarrow> vec_at (variable_seen a) (var conflict_literal);
     if seen = VS_UNSET then do {
       md \<leftarrow> vec_at (variable_metadata s) (var conflict_literal);
       if decision_level md > 0 then
         analyze_clause s rest
           (if decision_level md \<ge> decisionLevel s
            then a\<lparr>variable_seen := (variable_seen a)[var conflict_literal := IS_SOURCE],
                   path_length := path_length a + 1\<rparr>
            else a\<lparr>variable_seen := (variable_seen a)[var conflict_literal := IS_SOURCE],
                   out_learned_clause := out_learned_clause a @ [conflict_literal]\<rparr>)
       else analyze_clause s rest a
     } else analyze_clause s rest a
   }"

text \<open>
  \<^verbatim>\<open>while (variable_seen[trail[index--].var()] == UNSET);\<close> returns the index after the last
  decrement.
\<close>

function scan_trail :: "Solver \<Rightarrow> VariableStatus list \<Rightarrow> int \<Rightarrow> int option" where
  "scan_trail s seen i =
     (if 0 \<le> i then do {
        literal \<leftarrow> vec_at (trail s) (nat i);
        st \<leftarrow> vec_at seen (var literal);
        if st = VS_UNSET then scan_trail s seen (i - 1) else Some (i - 1)
      } else None)"
  by pat_completeness auto
termination
  by (relation "measure (\<lambda>(s, seen, i). nat (i + 1))") auto

declare scan_trail.simps [simp del]

text \<open>
  One pass through the body of the \<^verbatim>\<open>do\<close> loop of \<^verbatim>\<open>analyzeConflict\<close>: it returns the next
  conflict clause (the reason of the new pivot), the pivot and the state of the analysis.
\<close>

definition analyze_step ::
  "ClauseRef \<Rightarrow> Literal \<Rightarrow> Analysis \<Rightarrow> Solver \<Rightarrow> (ClauseRef \<times> Literal \<times> Analysis \<times> Solver) option" where
  "analyze_step conflict asserting_literal a s = do {
     assertion (valid conflict);
     conflict_clause \<leftarrow> clauseAt s conflict;
     s1 \<leftarrow> (if isLearned conflict then increaseClauseActivity conflict s else Some s);
     let start = (if valid asserting_literal then 1 else 0);
     a1 \<leftarrow> analyze_clause s1 (drop start conflict_clause) a;
     i \<leftarrow> scan_trail s1 (variable_seen a1) (index a1);
     asserting_literal' \<leftarrow> vec_at (trail s1) (nat (i + 1));
     md \<leftarrow> vec_at (variable_metadata s1) (var asserting_literal');
     seen' \<leftarrow> vec_set (variable_seen a1) (var asserting_literal') VS_UNSET;
     Some (reason_clause_idx md, asserting_literal',
       a1\<lparr>index := i, variable_seen := seen', path_length := path_length a1 - 1\<rparr>, s1)
   }"

partial_function (option) analyze_loop ::
  "ClauseRef \<Rightarrow> Literal \<Rightarrow> Analysis \<Rightarrow> Solver \<Rightarrow> (Literal \<times> Analysis \<times> Solver) option" where
  "analyze_loop conflict asserting_literal a s = do {
     (conflict', asserting_literal', a', s') \<leftarrow> analyze_step conflict asserting_literal a s;
     if path_length a' > 0 then analyze_loop conflict' asserting_literal' a' s'
     else Some (asserting_literal', a', s')
   }"

text \<open>
  \<^verbatim>\<open>isLiteralRedundantInConflictClause\<close>: the loop with its explicit stack of pairs
  (position, literal). \<open>mark_failed\<close> is the loop over the stack before \<^verbatim>\<open>return false\<close>.
\<close>

fun mark_failed :: "(nat \<times> Literal) list \<Rightarrow> VariableStatus list \<Rightarrow> VariableStatus list option" where
  "mark_failed [] seen = Some seen"
| "mark_failed ((i, literal) # rest) seen = do {
     st \<leftarrow> vec_at seen (var literal);
     mark_failed rest (if st = VS_UNSET then seen[var literal := REMOVAL_FAILED] else seen)
   }"

partial_function (option) redundant_loop ::
  "Solver \<Rightarrow> nat \<Rightarrow> Literal \<Rightarrow> Literal list \<Rightarrow> (nat \<times> Literal) list \<Rightarrow> VariableStatus list \<Rightarrow>
   (bool \<times> VariableStatus list) option" where
  "redundant_loop s i literal clause stack seen =
     (if i < length clause then do {
        let parent = clause ! i;
        md \<leftarrow> vec_at (variable_metadata s) (var parent);
        st \<leftarrow> (if decision_level md = 0 then Some VS_UNSET else vec_at seen (var parent));
        if decision_level md = 0 \<or> st = IS_SOURCE \<or> st = REMOVABLE
        then redundant_loop s (i + 1) literal clause stack seen
        else if \<not> valid (reason_clause_idx md) \<or> st = REMOVAL_FAILED then do {
          seen' \<leftarrow> mark_failed (stack @ [(0, literal)]) seen;
          Some (False, seen')
        } else do {
          clause' \<leftarrow> clauseAt s (reason_clause_idx md);
          redundant_loop s 1 parent clause' (stack @ [(i, literal)]) seen
        }
      } else do {
        st \<leftarrow> vec_at seen (var literal);
        let seen' = (if st = VS_UNSET then seen[var literal := REMOVABLE] else seen);
        if stack = [] then Some (True, seen')
        else do {
          let i' = fst (last stack);
          let literal' = snd (last stack);
          md \<leftarrow> vec_at (variable_metadata s) (var literal');
          clause' \<leftarrow> clauseAt s (reason_clause_idx md);
          redundant_loop s (i' + 1) literal' clause' (butlast stack) seen'
        }
      })"

definition isLiteralRedundantInConflictClause ::
  "Solver \<Rightarrow> VariableStatus list \<Rightarrow> Literal \<Rightarrow> (bool \<times> VariableStatus list) option" where
  "isLiteralRedundantInConflictClause s seen literal = do {
     st \<leftarrow> vec_at seen (var literal);
     assertion (st = VS_UNSET \<or> st = IS_SOURCE);
     md \<leftarrow> vec_at (variable_metadata s) (var literal);
     assertion (valid (reason_clause_idx md));
     clause \<leftarrow> clauseAt s (reason_clause_idx md);
     redundant_loop s 1 literal clause [] seen
   }"

text \<open>
  The minimisation loop of \<^verbatim>\<open>analyzeConflict\<close> over the positions \<open>i \<ge> 1\<close>: \<open>kept\<close> is
  \<^verbatim>\<open>out_learned_clause[0..j)\<close>, \<open>todo\<close> the literals from position \<open>i\<close> on.
\<close>

fun minimize_clause ::
  "Solver \<Rightarrow> Literal list \<Rightarrow> Literal list \<Rightarrow> VariableStatus list \<Rightarrow> Literal list option" where
  "minimize_clause s kept [] seen = Some kept"
| "minimize_clause s kept (literal # todo) seen = do {
     md \<leftarrow> vec_at (variable_metadata s) (var literal);
     if \<not> valid (reason_clause_idx md) then minimize_clause s (kept @ [literal]) todo seen
     else do {
       (redundant, seen') \<leftarrow> isLiteralRedundantInConflictClause s seen literal;
       if \<not> redundant then minimize_clause s (kept @ [literal]) todo seen'
       else minimize_clause s kept todo seen'
     }
   }"

text \<open>The position, from \<open>i\<close> on, of the first literal of the highest decision level.\<close>

fun max_level_index :: "Solver \<Rightarrow> Literal list \<Rightarrow> nat \<Rightarrow> nat \<Rightarrow> nat \<Rightarrow> nat option" where
  "max_level_index s clause max_i 0 i = Some max_i"
| "max_level_index s clause max_i (Suc n) i = do {
     mi \<leftarrow> vec_at (variable_metadata s) (var (clause ! i));
     mm \<leftarrow> vec_at (variable_metadata s) (var (clause ! max_i));
     max_level_index s clause (if decision_level mi > decision_level mm then i else max_i) n (i + 1)
   }"

definition analyzeConflict :: "ClauseRef \<Rightarrow> Solver \<Rightarrow> (nat \<times> Literal list \<times> Solver) option" where
  "analyzeConflict conflict s = do {
     (asserting_literal, a, s1) \<leftarrow> analyze_loop conflict INVALID
       \<lparr>out_learned_clause = [INVALID], index = int (length (trail s)) - 1, path_length = 0,
        variable_seen = replicate (unat (numVariables s)) VS_UNSET\<rparr> s;
     let out0 = (out_learned_clause a)[0 := negate asserting_literal];
     out1 \<leftarrow> minimize_clause s1 (take 1 out0) (drop 1 out0) (variable_seen a);
     if length out1 \<noteq> 1 then do {
       max_i \<leftarrow> max_level_index s1 out1 1 (length out1 - 2) 2;
       literal \<leftarrow> vec_at out1 max_i;
       first \<leftarrow> vec_at out1 1;
       md \<leftarrow> vec_at (variable_metadata s1) (var literal);
       Some (decision_level md, out1[max_i := first, 1 := literal], s1)
     } else Some (0, out1, s1)
   }"

section \<open>The search loop and \<^verbatim>\<open>solve\<close>\<close>

text \<open>
  The body of \<^verbatim>\<open>search\<close> after a conflict above level 0: analyse, backjump, assert the
  learned literal, decay the activities and adjust the limit of learned clauses. The progress
  line that the source prints here is not part of the model.
\<close>

definition learn_from_conflict :: "ClauseRef \<Rightarrow> Solver \<Rightarrow> Solver option" where
  "learn_from_conflict conflict s = do {
     (backtrack_level, learned_clause, s1) \<leftarrow> analyzeConflict conflict s;
     s2 \<leftarrow> revertTrail backtrack_level s1;
     first \<leftarrow> vec_at learned_clause 0;
     s3 \<leftarrow>
       (if length learned_clause = 1 then assignLiteral first INVALID s2
        else do {
          (r, s') \<leftarrow> attachClause learned_clause True s2;
          s'' \<leftarrow> increaseClauseActivity r s';
          assignLiteral first r s''
        });
     let s4 = s3\<lparr>clause_activity_increment :=
         clause_activity_increment s3 * (1 / CLAUSE_ACTIVITY_DECAY),
       learned_size_adjust_count := learned_size_adjust_count s3 - 1\<rparr>;
     if learned_size_adjust_count s4 = 0 then do {
       let adjust = learned_size_adjust_on_conflict s4 * MAX_LEARNED_ADJUST_INCREMENT;
       assertion (adjust < 2 ^ 64);
       Some (s4\<lparr>learned_size_adjust_on_conflict := adjust,
         learned_size_adjust_count := word_of_nat (nat \<lfloor>adjust\<rfloor>),
         max_learned_clauses := max_learned_clauses s4 * MAX_LEARNED_CLAUSES_INCREMENT\<rparr>)
     } else Some s4
   }"

text \<open>
  One pass through the body of the loop of \<^verbatim>\<open>search\<close>, with its \<^verbatim>\<open>uint32\<close> counter of
  conflicts (the increment wraps): the pass returns from \<^verbatim>\<open>search\<close> with a status (\<open>Inl\<close>) or
  goes on with the counter (\<open>Inr\<close>).
\<close>

definition search_step ::
  "nat \<Rightarrow> nat \<Rightarrow> Solver \<Rightarrow> ((SolverExitCode + nat) \<times> Solver) option" where
  "search_step allowed_num_of_conflicts num_conflicts s = do {
     (conflict, s1) \<leftarrow> propagate s;
     if valid conflict then do {
       let s2 = s1\<lparr>stats := (stats s1)\<lparr>num_total_conflicts := num_total_conflicts (stats s1) + 1\<rparr>\<rparr>;
       let num_conflicts' = (num_conflicts + 1) mod 2 ^ 32;
       if decisionLevel s2 = 0 then Some (Inl UNSAT, s2)
       else do {
         s3 \<leftarrow> learn_from_conflict conflict s2;
         Some (Inr num_conflicts', s3)
       }
     } else if num_conflicts \<ge> allowed_num_of_conflicts then do {
       s2 \<leftarrow> revertTrail 0 s1;
       Some (Inl UNKNOWN, s2)
     } else do {
       (ok, s2) \<leftarrow> (if decisionLevel s1 = 0 then simplify s1 else Some (True, s1));
       if \<not> ok then Some (Inl UNSAT, s2)
       else do {
         s3 \<leftarrow>
           (if real (Clauses_size (learned_clauses s2))
                 \<ge> max_learned_clauses s2 + real (length (trail s2))
            then pruneLearnedClauses s2 else Some s2);
         let s4 = s3\<lparr>stats := (stats s3)\<lparr>num_decisions := num_decisions (stats s3) + 1\<rparr>\<rparr>;
         (next_literal, s5) \<leftarrow> pickBranchLiteral s4;
         case next_literal of
           None \<Rightarrow> Some (Inl SAT, s5)
         | Some literal \<Rightarrow> do {
             s6 \<leftarrow> assignLiteral literal INVALID
               (s5\<lparr>trail_separators := trail_separators s5 @ [length (trail s5)]\<rparr>);
             Some (Inr num_conflicts, s6)
           }
       }
     }
   }"

partial_function (option) search_loop ::
  "nat \<Rightarrow> nat \<Rightarrow> Solver \<Rightarrow> (SolverExitCode \<times> Solver) option" where
  "search_loop allowed_num_of_conflicts num_conflicts s = do {
     (r, s') \<leftarrow> search_step allowed_num_of_conflicts num_conflicts s;
     case r of
       Inl status \<Rightarrow> Some (status, s')
     | Inr num_conflicts' \<Rightarrow> search_loop allowed_num_of_conflicts num_conflicts' s'
   }"

definition search :: "nat \<Rightarrow> Solver \<Rightarrow> (SolverExitCode \<times> Solver) option" where
  "search allowed_num_of_conflicts s = search_loop allowed_num_of_conflicts 0 s"

text \<open>
  The restart loop of \<^verbatim>\<open>solve\<close> and one round of it. The restart counter is converted to \<^verbatim>\<open>int\<close> for \<^verbatim>\<open>luby\<close>, and
  the product with \<^verbatim>\<open>RESTART_FIRST\<close> to \<^verbatim>\<open>uint32\<close> for \<^verbatim>\<open>search\<close>: a value that does not fit is
  undefined behaviour.
\<close>

definition solve_round :: "Solver \<Rightarrow> (SolverExitCode \<times> Solver) option" where
  "solve_round s = do {
     restart_base_value \<leftarrow> luby RESTART_INC (sint (ucast (num_restarts (stats s)) :: 32 word));
     let budget = restart_base_value * real_of_int RESTART_FIRST;
     assertion (0 \<le> budget \<and> budget < 2 ^ 32);
     (status, s1) \<leftarrow> search (nat \<lfloor>budget\<rfloor>) s;
     Some (status, s1\<lparr>stats := (stats s1)\<lparr>num_restarts := num_restarts (stats s1) + 1\<rparr>\<rparr>)
   }"

partial_function (option) solve_loop :: "Solver \<Rightarrow> (SolverExitCode \<times> Solver) option" where
  "solve_loop s = do {
     (status, s') \<leftarrow> solve_round s;
     if status = UNKNOWN then solve_loop s' else Some (status, s')
   }"

definition solve :: "Solver \<Rightarrow> (SolverExitCode \<times> Solver) option" where
  "solve s =
     (if numVariables s = 0 \<or> numClauses s = 0 then Some (UNKNOWN, s)
      else do {
        (ok, s1) \<leftarrow> simplify s;
        if \<not> ok then Some (UNSAT, s1)
        else solve_loop
          (s1\<lparr>max_learned_clauses := real (unat (numClauses s1)) * MAX_LEARNED_CLAUSES_FACTOR,
              stats := (stats s1)\<lparr>num_restarts := 0\<rparr>\<rparr>)
      })"

section \<open>Loading a clause\<close>

text \<open>
  The pass of \<^verbatim>\<open>addClause\<close> over the sorted literals. The result is \<open>None\<close> when the pass
  returns \<^verbatim>\<open>true\<close> early (the clause is satisfied or a tautology), and the literals that
  survive otherwise. \<^verbatim>\<open>operator<\<close> of literals compares the \<^verbatim>\<open>uint32\<close> values.
\<close>

fun addClause_pass ::
  "Solver \<Rightarrow> Literal \<Rightarrow> Literal list \<Rightarrow> Literal list \<Rightarrow> Literal list option option" where
  "addClause_pass s last_literal kept [] = Some (Some kept)"
| "addClause_pass s last_literal kept (curr_literal # rest) = do {
     assertion (var curr_literal < unat (numVariables s));
     v \<leftarrow> vec_at (variable_values s) (var curr_literal);
     if v = VariableValue_of (polarity curr_literal) then Some None
     else if curr_literal = negate last_literal then Some None
     else if v = VariableValue_of (\<not> polarity curr_literal) then addClause_pass s last_literal kept rest
     else if curr_literal = last_literal then addClause_pass s last_literal kept rest
     else addClause_pass s curr_literal (kept @ [curr_literal]) rest
   }"

definition addClause :: "Literal list \<Rightarrow> Solver \<Rightarrow> (bool \<times> Solver) option" where
  "addClause literals s = do {
     assertion (decisionLevel s = 0);
     assertion (literals \<noteq> []);
     pass \<leftarrow> addClause_pass s INVALID [] (sort_key unat literals);
     case pass of
       None \<Rightarrow> Some (True, s)
     | Some copied_literals \<Rightarrow>
         if copied_literals = [] then Some (False, s)
         else if length copied_literals = 1 then do {
           s1 \<leftarrow> assignLiteral (copied_literals ! 0) INVALID s;
           (conflict, s2) \<leftarrow> propagate s1;
           Some (\<not> valid conflict, s2)
         } else do {
           (r, s1) \<leftarrow> attachClause copied_literals False s;
           Some (True, s1)
         }
   }"

section \<open>The DIMACS loader (parse.hpp)\<close>

datatype ParseState =
  NEW_LINE | EXPECT_NEW_LINE | COMMENT
  | HEADER_P_' | HEADER_P_C | HEADER_P_CN | HEADER_P_CNF | HEADER_P_CNF_'
  | HEADER_P_CNF_N | HEADER_P_CNF_N_' | HEADER_P_CNF_N_N | HEADER_P_CNF_N_N_'
  | CLAUSE_DIGIT | CLAUSE_DIGIT_SPACE | CLAUSE_DIGIT_MINUS

text \<open>The local variables of \<^verbatim>\<open>parseCnf\<close>.\<close>

record Parser =
  p_solver :: Solver
  num_variables_header :: "32 word"
  curr_num_variables :: "32 word"
  num_clauses_header :: "32 word"
  curr_num_clauses :: "32 word"
  processed_header :: bool
  p_clause :: "Literal list"
  p_variable :: "32 word"
  p_sign :: bool
  curr_state :: ParseState

definition Parser_init :: "nat stream \<Rightarrow> Parser" where
  "Parser_init gen = \<lparr>p_solver = Solver_init gen, num_variables_header = 0,
     curr_num_variables = 0, num_clauses_header = 0, curr_num_clauses = 0,
     processed_header = False, p_clause = [], p_variable = 0, p_sign = True,
     curr_state = NEW_LINE\<rparr>"

text \<open>
  One byte of the state machine goes on with the next byte, returns the solver early (a
  clause made the formula unsatisfiable), or leaves the program through
  \<^verbatim>\<open>std::exit(EXIT_FAILURE)\<close> after a message on the standard error stream.
\<close>

datatype ParseStep = Continue Parser | Return Solver | Exit string

definition unexpected_token :: ParseStep where
  "unexpected_token = Exit ''Failed to parse cnf file.''"

definition is_newline :: "char \<Rightarrow> bool" where
  "is_newline c \<longleftrightarrow> c = CHR 0x0A \<or> c = CHR 0x0D"

definition digit_between :: "nat \<Rightarrow> char \<Rightarrow> bool" where
  "digit_between lo c \<longleftrightarrow> 48 + lo \<le> (of_char c :: nat) \<and> (of_char c :: nat) \<le> 57"

definition digit_of :: "char \<Rightarrow> 32 word" where
  "digit_of c = word_of_nat (of_char c - 48)"

definition parse_char :: "Parser \<Rightarrow> char \<Rightarrow> ParseStep option" where
  "parse_char p c =
     (case curr_state p of
        NEW_LINE \<Rightarrow>
          if is_newline c then Some (Continue p)
          else if \<not> processed_header p \<and> c = CHR ''p'' then
            Some (Continue (p\<lparr>curr_state := HEADER_P_', processed_header := True\<rparr>))
          else if c = CHR ''c'' then Some (Continue (p\<lparr>curr_state := COMMENT\<rparr>))
          else if processed_header p \<and> c = CHR ''-'' then
            Some (Continue (p\<lparr>p_sign := False, curr_state := CLAUSE_DIGIT, p_clause := [],
              curr_num_clauses := curr_num_clauses p + 1\<rparr>))
          else if processed_header p \<and> digit_between 1 c then
            Some (Continue (p\<lparr>p_variable := digit_of c, p_sign := True,
              curr_state := CLAUSE_DIGIT_SPACE, p_clause := [],
              curr_num_clauses := curr_num_clauses p + 1\<rparr>))
          else Some unexpected_token
      | EXPECT_NEW_LINE \<Rightarrow>
          if is_newline c then Some (Continue (p\<lparr>curr_state := NEW_LINE\<rparr>))
          else Some unexpected_token
      | COMMENT \<Rightarrow>
          if is_newline c then Some (Continue (p\<lparr>curr_state := NEW_LINE\<rparr>))
          else Some (Continue p)
      | HEADER_P_' \<Rightarrow>
          if c = CHR '' '' then Some (Continue (p\<lparr>curr_state := HEADER_P_C\<rparr>))
          else Some unexpected_token
      | HEADER_P_C \<Rightarrow>
          if c = CHR ''c'' then Some (Continue (p\<lparr>curr_state := HEADER_P_CN\<rparr>))
          else Some unexpected_token
      | HEADER_P_CN \<Rightarrow>
          if c = CHR ''n'' then Some (Continue (p\<lparr>curr_state := HEADER_P_CNF\<rparr>))
          else Some unexpected_token
      | HEADER_P_CNF \<Rightarrow>
          if c = CHR ''f'' then Some (Continue (p\<lparr>curr_state := HEADER_P_CNF_'\<rparr>))
          else Some unexpected_token
      | HEADER_P_CNF_' \<Rightarrow>
          if c = CHR '' '' then Some (Continue (p\<lparr>curr_state := HEADER_P_CNF_N\<rparr>))
          else Some unexpected_token
      | HEADER_P_CNF_N \<Rightarrow>
          if digit_between 1 c then
            Some (Continue (p\<lparr>num_variables_header := digit_of c, curr_state := HEADER_P_CNF_N_'\<rparr>))
          else Some unexpected_token
      | HEADER_P_CNF_N_' \<Rightarrow>
          if c = CHR '' '' then Some (Continue (p\<lparr>curr_state := HEADER_P_CNF_N_N\<rparr>))
          else if digit_between 0 c then
            Some (Continue (p\<lparr>num_variables_header := 10 * num_variables_header p + digit_of c\<rparr>))
          else Some unexpected_token
      | HEADER_P_CNF_N_N \<Rightarrow>
          if digit_between 1 c then
            Some (Continue (p\<lparr>num_clauses_header := digit_of c, curr_state := HEADER_P_CNF_N_N_'\<rparr>))
          else Some unexpected_token
      | HEADER_P_CNF_N_N_' \<Rightarrow>
          if is_newline c then
            Some (Continue (p\<lparr>p_solver := createVariables (num_variables_header p) (p_solver p),
              curr_state := NEW_LINE\<rparr>))
          else if digit_between 0 c then
            Some (Continue (p\<lparr>num_clauses_header := 10 * num_clauses_header p + digit_of c\<rparr>))
          else Some unexpected_token
      | CLAUSE_DIGIT \<Rightarrow>
          if digit_between 1 c then
            Some (Continue (p\<lparr>p_variable := digit_of c, curr_state := CLAUSE_DIGIT_SPACE\<rparr>))
          else Some unexpected_token
      | CLAUSE_DIGIT_SPACE \<Rightarrow>
          if c = CHR '' '' then
            Some (Continue (p\<lparr>curr_state := CLAUSE_DIGIT_MINUS,
              p_clause := p_clause p @ [Literal_of (p_variable p - 1) (p_sign p)],
              curr_num_variables :=
                (if unat (p_variable p) > unat (curr_num_variables p) then p_variable p
                 else curr_num_variables p),
              p_sign := True\<rparr>))
          else if digit_between 0 c then
            Some (Continue (p\<lparr>p_variable := 10 * p_variable p + digit_of c\<rparr>))
          else Some unexpected_token
      | CLAUSE_DIGIT_MINUS \<Rightarrow>
          if c = CHR ''-'' then Some (Continue (p\<lparr>curr_state := CLAUSE_DIGIT, p_sign := False\<rparr>))
          else if c = CHR ''0'' then do {
            (still_satisfiable, s) \<leftarrow> addClause (p_clause p) (p_solver p);
            if \<not> still_satisfiable then Some (Return s)
            else Some (Continue (p\<lparr>curr_state := EXPECT_NEW_LINE, p_solver := s\<rparr>))
          }
          else if digit_between 1 c then
            Some (Continue (p\<lparr>p_variable := digit_of c, curr_state := CLAUSE_DIGIT_SPACE\<rparr>))
          else Some unexpected_token)"

text \<open>
  The state machine over all bytes read. The source reads chunks of 4096 bytes and runs the
  machine across them; the chunk boundaries do not show in its state.
\<close>

fun parse_bytes :: "Parser \<Rightarrow> string \<Rightarrow> ParseStep option" where
  "parse_bytes p [] = Some (Continue p)"
| "parse_bytes p (c # cs) = do {
     step \<leftarrow> parse_char p c;
     case step of Continue p' \<Rightarrow> parse_bytes p' cs | _ \<Rightarrow> Some step
   }"

text \<open>
  The result of a run of the loader or of the program: the solver, or the message on the
  standard error stream before \<^verbatim>\<open>std::exit(EXIT_FAILURE)\<close>.

  The file system is a parameter: for a way of opening (plain, through \<^verbatim>\<open>xz -dc\<close>, through
  \<^verbatim>\<open>gzip -dc\<close>) and a path, the bytes that are read and the status that closing returns, or
  nothing when the file or pipe cannot be opened.
\<close>

datatype OpenMode = PlainText | Xz | Gzip

type_synonym FileSystem = "OpenMode \<Rightarrow> string \<Rightarrow> (string \<times> int) option"

definition ends_with :: "string \<Rightarrow> string \<Rightarrow> bool" where
  "ends_with filename suffix \<longleftrightarrow> suffix = drop (length filename - length suffix) filename"

definition open_failure :: "OpenMode \<Rightarrow> string \<Rightarrow> string" where
  "open_failure m filename =
     (case m of
        PlainText \<Rightarrow> ''Failed to open file \"'' @ filename @ ''\" using plain text mode.''
      | Xz \<Rightarrow> ''Failed to decompress file \"'' @ filename @ ''\" using \"xz\".''
      | Gzip \<Rightarrow> ''Failed to decompress file \"'' @ filename @ ''\" using \"gzip\".'')"

definition parseCnf :: "nat stream \<Rightarrow> FileSystem \<Rightarrow> string \<Rightarrow> (string + Solver) option" where
  "parseCnf gen fs filename =
     (let m = (if ends_with filename ''.xz'' then Xz
               else if ends_with filename ''.gz'' then Gzip else PlainText)
      in case fs m filename of
        None \<Rightarrow> Some (Inl (open_failure m filename))
      | Some (bytes, exit_status) \<Rightarrow> do {
          step \<leftarrow> parse_bytes (Parser_init gen) bytes;
          case step of
            Exit msg \<Rightarrow> Some (Inl msg)
          | Return s \<Rightarrow> Some (Inr s)
          | Continue p \<Rightarrow>
              if exit_status \<noteq> 0 then Some (Inl ''Failed to read from file or pipe.'')
              else if curr_state p \<noteq> NEW_LINE then Some (Inl ''Failed to parse cnf file.'')
              else if curr_num_variables p \<noteq> num_variables_header p then
                Some (Inl ''Number of variables in cnf incorrect.'')
              else if curr_num_clauses p \<noteq> num_clauses_header p then
                Some (Inl ''Number of clauses in cnf incorrect.'')
              else Some (Inr (p_solver p))
        })"

section \<open>The program (main.cpp, logging.hpp)\<close>

text \<open>
  What a run of the program leaves behind: the standard output, the standard error stream
  and the exit status. Of the standard output only the usage line and the result line are
  modelled; the tables of statistics, which contain the elapsed time, are not.
\<close>

record Run =
  stdout :: string
  stderr :: string
  exit_status :: int

definition EXIT_FAILURE :: int where
  "EXIT_FAILURE = 1"

function show_nat :: "nat \<Rightarrow> string" where
  "show_nat n =
     (if n < 10 then [''0123456789'' ! n]
      else show_nat (n div 10) @ [''0123456789'' ! (n mod 10)])"
  by pat_completeness auto
termination
  by (relation "measure id") auto

declare show_nat.simps [simp del]

fun print_values :: "nat \<Rightarrow> VariableValue list \<Rightarrow> string option" where
  "print_values v [] = Some []"
| "print_values v (val # vals) = do {
     assertion (val = TRUE \<or> val = FALSE);
     rest \<leftarrow> print_values (v + 1) vals;
     Some ((if val = TRUE then '' '' else '' -'') @ show_nat (v + 1) @ rest)
   }"

definition printModel :: "Solver \<Rightarrow> SolverExitCode \<Rightarrow> string option" where
  "printModel s exit_code =
     (case exit_code of
        UNKNOWN \<Rightarrow> Some ''UNKNOWN''
      | SAT \<Rightarrow> map_option (\<lambda>vs. ''SAT'' @ vs) (print_values 0 (model s))
      | UNSAT \<Rightarrow> Some ''UNSAT'')"

definition usage :: string where
  "usage = ''Expects `nanosat file.cnf`, `nanosat file.cnf.gz`, or `nanosat file.cnf.xz`.''"

definition main :: "nat stream \<Rightarrow> FileSystem \<Rightarrow> string list \<Rightarrow> Run option" where
  "main gen fs argv =
     (if length argv \<noteq> 2 then
        Some \<lparr>stdout = usage, stderr = [], exit_status = EXIT_FAILURE\<rparr>
      else do {
        parsed \<leftarrow> parseCnf gen fs (argv ! 1);
        case parsed of
          Inl msg \<Rightarrow> Some \<lparr>stdout = [], stderr = msg, exit_status = EXIT_FAILURE\<rparr>
        | Inr s \<Rightarrow> do {
            (exit_code, s') \<leftarrow> solve s;
            line \<leftarrow> printModel s' exit_code;
            Some \<lparr>stdout = line, stderr = [], exit_status = exit_code_int exit_code\<rparr>
          }
      })"

section \<open>Inputs used below\<close>

text \<open>A file system with one plain file, which closes without an error.\<close>

definition single_file :: "string \<Rightarrow> string \<Rightarrow> FileSystem" where
  "single_file path bytes m f = (if m = PlainText \<and> f = path then Some (bytes, 0) else None)"

definition newline :: string where
  "newline = [CHR 0x0A]"

text \<open>Scenario S1 of the specification: \<^verbatim>\<open>p cnf 1 2 / 1 0 / -1 0\<close>.\<close>

definition scenario_S1 :: string where
  "scenario_S1 = ''p cnf 1 2'' @ newline @ ''1 0'' @ newline @ ''-1 0'' @ newline"

text \<open>\<^verbatim>\<open>p cnf 2 3 / 1 2 0 / 1 0 / -1 0\<close>: unsatisfiable by its last two clauses.\<close>

definition unit_conflict_cnf :: string where
  "unit_conflict_cnf =
     ''p cnf 2 3'' @ newline @ ''1 2 0'' @ newline @ ''1 0'' @ newline @ ''-1 0'' @ newline"

text \<open>\<^verbatim>\<open>p cnf 2 3 / 1 2 0 / 1 -2 0 / -1 0\<close>: unsatisfiable, found by propagating the last clause.\<close>

definition propagation_conflict_cnf :: string where
  "propagation_conflict_cnf =
     ''p cnf 2 3'' @ newline @ ''1 2 0'' @ newline @ ''1 -2 0'' @ newline @ ''-1 0'' @ newline"

section \<open>Invariants and specification-level notions\<close>

text \<open>
  Trail consistency: every trail entry's variable has the value of the entry's polarity.
\<close>

definition trail_consistent :: "Solver \<Rightarrow> bool" where
  "trail_consistent s \<longleftrightarrow>
     (\<forall>i < length (trail s). var (trail s ! i) < length (variable_values s) \<and>
        variable_values s ! var (trail s ! i) = VariableValue_of (polarity (trail s ! i)))"

text \<open>
  What the operations keep besides, and need to keep it: no variable is twice on the
  trail, and the offsets of the decision levels are sorted and lie within the trail.
\<close>

definition trail_inv :: "Solver \<Rightarrow> bool" where
  "trail_inv s \<longleftrightarrow> trail_consistent s \<and> distinct (map var (trail s)) \<and>
     sorted (trail_separators s) \<and> (\<forall>x \<in> set (trail_separators s). x \<le> length (trail s))"

text \<open>An operation that leaves the trail, the values and the level offsets as they are.\<close>

definition same_trail :: "Solver \<Rightarrow> Solver \<Rightarrow> bool" where
  "same_trail s s' \<longleftrightarrow> trail s' = trail s \<and> variable_values s' = variable_values s \<and>
     trail_separators s' = trail_separators s"

text \<open>
  The states between operations: a fresh solver, sized once by \<^verbatim>\<open>createVariables\<close> (again
  only while nothing is assigned), and then any sequence of the member functions of the
  solver that return.
\<close>

inductive reachable :: "Solver \<Rightarrow> bool" where
  fresh: "reachable (Solver_init gen)"
| createVariables: "reachable s \<Longrightarrow> trail s = [] \<Longrightarrow> reachable (createVariables n s)"
| addClause: "reachable s \<Longrightarrow> addClause literals s = Some (r, s') \<Longrightarrow> reachable s'"
| solve: "reachable s \<Longrightarrow> solve s = Some (status, s') \<Longrightarrow> reachable s'"
| search: "reachable s \<Longrightarrow> search n s = Some (status, s') \<Longrightarrow> reachable s'"
| propagate: "reachable s \<Longrightarrow> propagate s = Some (conflict, s') \<Longrightarrow> reachable s'"
| simplify: "reachable s \<Longrightarrow> simplify s = Some (r, s') \<Longrightarrow> reachable s'"
| assignLiteral: "reachable s \<Longrightarrow> assignLiteral literal reason s = Some s' \<Longrightarrow> reachable s'"
| revertTrail: "reachable s \<Longrightarrow> revertTrail level s = Some s' \<Longrightarrow> reachable s'"
| analyzeConflict:
    "reachable s \<Longrightarrow> analyzeConflict conflict s = Some (level, learned, s') \<Longrightarrow> reachable s'"
| attachClause: "reachable s \<Longrightarrow> attachClause literals is_learned s = Some (r', s') \<Longrightarrow> reachable s'"
| detachClause: "reachable s \<Longrightarrow> detachClause r' s = Some s' \<Longrightarrow> reachable s'"
| removeSatisfiedClauses:
    "reachable s \<Longrightarrow> removeSatisfiedClauses is_learned s = Some s' \<Longrightarrow> reachable s'"
| pruneLearnedClauses: "reachable s \<Longrightarrow> pruneLearnedClauses s = Some s' \<Longrightarrow> reachable s'"
| increaseClauseActivity: "reachable s \<Longrightarrow> increaseClauseActivity r' s = Some s' \<Longrightarrow> reachable s'"
| pickBranchLiteral: "reachable s \<Longrightarrow> pickBranchLiteral s = Some (next_literal, s') \<Longrightarrow> reachable s'"

section \<open>Notions used in the statements and proofs\<close>

text \<open>\<open>holds m Q\<close>: if the computation \<open>m\<close> returns, its result satisfies \<open>Q\<close>.\<close>

definition holds :: "'a option \<Rightarrow> ('a \<Rightarrow> bool) \<Rightarrow> bool" where
  "holds m Q \<longleftrightarrow> (\<forall>x. m = Some x \<longrightarrow> Q x)"

text \<open>
  A property of the state that propagation keeps: one that does not read the watches, the
  clause arenas, the propagation head or the counter of propagations, and that
  \<^verbatim>\<open>assignLiteral\<close> keeps.
\<close>

definition propagation_stable :: "(Solver \<Rightarrow> bool) \<Rightarrow> bool" where
  "propagation_stable P \<longleftrightarrow>
     (\<forall>s lw. P (s\<lparr>literals_watched_by := lw\<rparr>) = P s) \<and>
     (\<forall>s cs. P (s\<lparr>clauses := (clauses s)\<lparr>cl_clauses := cs\<rparr>\<rparr>) = P s) \<and>
     (\<forall>s cs. P (s\<lparr>learned_clauses := (learned_clauses s)\<lparr>cl_clauses := cs\<rparr>\<rparr>) = P s) \<and>
     (\<forall>s h. P (s\<lparr>trail_propagation_head := h\<rparr>) = P s) \<and>
     (\<forall>s n. P (s\<lparr>stats := (stats s)\<lparr>num_propagations := n\<rparr>\<rparr>) = P s) \<and>
     (\<forall>s literal reason s'. assignLiteral literal reason s = Some s' \<longrightarrow> P s \<longrightarrow> P s')"

text \<open>
  The states of a solver that was sized for at least one variable and then given only clauses
  of which one literal survives the pass of \<^verbatim>\<open>addClause\<close>, each call returning \<^verbatim>\<open>true\<close>.
\<close>

inductive unit_loaded :: "Solver \<Rightarrow> bool" where
  sized: "n \<noteq> 0 \<Longrightarrow> unit_loaded (createVariables n (Solver_init gen))"
| unit:
    "unit_loaded s \<Longrightarrow> addClause_pass s INVALID [] (sort_key unat literals) = Some (Some [l]) \<Longrightarrow>
      addClause literals s = Some (True, s') \<Longrightarrow> unit_loaded s'"

text \<open>The solver after \<^verbatim>\<open>createVariables(1)\<close> and \<^verbatim>\<open>addClause\<close> of the unit clause \<open>x1\<close>.\<close>

definition unit_x1 :: "(bool \<times> Solver) option" where
  "unit_x1 = addClause [Literal_of 0 True] (createVariables 1 (Solver_init (sconst 0)))"

text \<open>
  A run with two decisions: the clause \<open>x1 \<or> x2 \<or> x3\<close> over three variables is loaded and
  solved, the trail is reverted to level 1, and \<open>x1\<close> is assigned.
\<close>

definition three_var_solved :: "Solver option" where
  "three_var_solved = do {
     (r, s1) \<leftarrow> addClause [Literal_of 0 True, Literal_of 1 True, Literal_of 2 True]
       (createVariables 3 (Solver_init (sconst 0)));
     (status, s) \<leftarrow> solve s1;
     Some s
   }"

definition three_var_reverted :: "Solver option" where
  "three_var_reverted = do { s \<leftarrow> three_var_solved; revertTrail 1 s }"

definition three_var_assigned :: "Solver option" where
  "three_var_assigned = do { s \<leftarrow> three_var_reverted; assignLiteral (Literal_of 0 True) INVALID s }"
text \<open>
  \<^verbatim>\<open>pruneLearnedClauses\<close> with a record of its calls of \<^verbatim>\<open>detachClause\<close>: the loop of
  \<open>prune_loop\<close>, returning besides the reference and the state of every call, in the order of
  the calls.
\<close>

function prune_trace :: "real \<Rightarrow> nat \<Rightarrow> Solver \<Rightarrow> ((ClauseRef \<times> Solver) list \<times> Solver) option" where
  "prune_trace pruneThresh i s =
     (if i < Clauses_size (learned_clauses s) then do {
        let r = ClauseRef_of i True;
        clause \<leftarrow> Clauses_at (learned_clauses s) r;
        if clause = [] then prune_trace pruneThresh (i + 1) s
        else if length clause > 2 then do {
          a \<leftarrow> Clauses_activity (learned_clauses s) r;
          if a < pruneThresh then do {
            locked \<leftarrow> isLockedClause s r;
            if \<not> locked then do {
              s1 \<leftarrow> detachClause r s;
              (removed, s') \<leftarrow> prune_trace pruneThresh (i + 1) s1;
              Some ((r, s) # removed, s')
            } else prune_trace pruneThresh (i + 1) s
          } else prune_trace pruneThresh (i + 1) s
        } else prune_trace pruneThresh (i + 1) s
      } else Some ([], s))"
  by pat_completeness auto
termination
proof (relation "measure (\<lambda>(t, i, s). Clauses_size (learned_clauses s) - i)", goal_cases)
  case (3 t i s r clause a locked s1)
  then show ?case using detachClause_size [of r s s1 True] by (simp add: container_def)
qed simp_all

declare prune_trace.simps [simp del]

definition pruneLearnedClauses_trace :: "Solver \<Rightarrow> ((ClauseRef \<times> Solver) list \<times> Solver) option" where
  "pruneLearnedClauses_trace s = do {
     pruneThresh \<leftarrow> prune_threshold s;
     prune_trace pruneThresh 0 s
   }"

text \<open>
  The specification's notion of a locked clause: the first literal of the clause is true
  and the reason recorded for its variable is the clause.
\<close>

definition locked :: "Solver \<Rightarrow> ClauseRef \<Rightarrow> bool" where
  "locked s r =
     (case clauseAt s r of
        Some (c0 # rest) \<Rightarrow>
          variable_values s ! var c0 = VariableValue_of (polarity c0) \<and>
          reason_clause_idx (variable_metadata s ! var c0) = r
      | _ \<Rightarrow> False)"

text \<open>
  A solver with four learned clauses over four variables, of which the last two have been
  bumped, after the assignments \<open>\<not>x2\<close>, \<open>\<not>x3\<close> and, with the first clause as its reason, \<open>x1\<close>.
\<close>

definition prune_example :: "Solver option" where
  "prune_example = do {
     (r0, s1) \<leftarrow> attachClause [Literal_of 0 True, Literal_of 1 True, Literal_of 2 True] True
       (createVariables 4 (Solver_init (sconst 0)));
     (r1, s2) \<leftarrow> attachClause [Literal_of 1 True, Literal_of 2 True, Literal_of 3 True] True s1;
     (r2, s3) \<leftarrow> attachClause [Literal_of 0 False, Literal_of 2 True, Literal_of 3 False] True s2;
     (r3, s4) \<leftarrow> attachClause [Literal_of 0 True, Literal_of 1 False, Literal_of 3 True] True s3;
     s5 \<leftarrow> increaseClauseActivity r2 s4;
     s6 \<leftarrow> increaseClauseActivity r3 s5;
     s7 \<leftarrow> assignLiteral (Literal_of 1 False) INVALID s6;
     s8 \<leftarrow> assignLiteral (Literal_of 2 False) INVALID s7;
     assignLiteral (Literal_of 0 True) r0 s8
   }"

text \<open>
  The pruning threshold in the specification's words: the live learned clauses are those of
  the non-empty slots, the median is the activity at the middle position of the activities
  in ascending order, and the second operand divides the activity increment by the number
  of live learned clauses.
\<close>

definition live_learned :: "Solver \<Rightarrow> nat \<Rightarrow> bool" where
  "live_learned s i \<longleftrightarrow>
     i < Clauses_size (learned_clauses s) \<and> cl_clauses (learned_clauses s) ! i \<noteq> []"

definition live_activities :: "Solver \<Rightarrow> real list" where
  "live_activities s =
     map (\<lambda>i. activities (learned_clauses s) ! i)
       (filter (live_learned s) [0..<Clauses_size (learned_clauses s)])"

definition median_activity :: "Solver \<Rightarrow> real" where
  "median_activity s = sort (live_activities s) ! (length (live_activities s) div 2)"

definition claimed_threshold :: "Solver \<Rightarrow> real" where
  "claimed_threshold s =
     min (median_activity s) (clause_activity_increment s / real (length (live_activities s)))"

text \<open>The same with the number of slots of the arena, empty ones included, as the divisor.\<close>

definition slots_threshold :: "Solver \<Rightarrow> real" where
  "slots_threshold s =
     min (median_activity s)
       (clause_activity_increment s / real (Clauses_size (learned_clauses s)))"

text \<open>
  A learned clause that pruning with the threshold \<open>t\<close> is to detach: live, longer than
  two literals, of an activity below \<open>t\<close>, and not locked.
\<close>

definition prunable :: "Solver \<Rightarrow> real \<Rightarrow> nat \<Rightarrow> bool" where
  "prunable s t i \<longleftrightarrow>
     live_learned s i \<and> length (cl_clauses (learned_clauses s) ! i) > 2 \<and>
     activities (learned_clauses s) ! i < t \<and> \<not> locked s (ClauseRef_of i True)"

text \<open>The example after \<^verbatim>\<open>pruneLearnedClauses\<close>: four slots, one of them empty.\<close>

definition pruned_example :: Solver where
  "pruned_example = the (prune_example \<bind> pruneLearnedClauses)"

chapter \<open>Properties\<close>

section \<open>The Luby sequence\<close>

lemma length_luby_block: "length (luby_block k) = 2 ^ (k + 1) - 1"
proof (induction k)
  case 0 show ?case by simp
next
  case (Suc k)
  have "(1::nat) \<le> 2 ^ (k + 1)" by simp
  with Suc show ?case by simp
qed

lemma luby_block_last: "luby_block k ! (2 ^ (k + 1) - 2) = k"
proof (cases k)
  case 0 then show ?thesis by simp
next
  case (Suc j)
  have a: "(1::nat) \<le> 2 ^ (j + 1)" by simp
  have b: "(2::nat) ^ (Suc j + 1) = 2 * 2 ^ (j + 1)" by simp
  have "length (luby_block j @ luby_block j) = 2 * (2 ^ (j + 1) - 1)"
    by (simp only: length_append length_luby_block mult_2)
  also have "\<dots> = 2 ^ (Suc j + 1) - 2" unfolding b using a by linarith
  finally have l: "length (luby_block j @ luby_block j) = 2 ^ (Suc j + 1) - 2" .
  have "luby_block (Suc j) = (luby_block j @ luby_block j) @ [Suc j]" by simp
  then show ?thesis using l Suc by (metis nth_append_length)
qed

lemma length_luby_block_mono: "length (luby_block k) \<le> length (luby_block (k + d))"
  by (induction d) simp_all

lemma luby_block_prefix:
  "x < length (luby_block k) \<Longrightarrow> luby_block (k + d) ! x = luby_block k ! x"
proof (induction d)
  case 0 show ?case by simp
next
  case (Suc d)
  have "x < length (luby_block (k + d))"
    using Suc.prems length_luby_block_mono [of k d] by linarith
  then have "luby_block (k + Suc d) ! x = luby_block (k + d) ! x" by (simp add: nth_append)
  then show ?case using Suc by simp
qed

lemma luby_block_exponent:
  assumes "x < length (luby_block k)"
  shows "luby_block k ! x = luby_exponent x"
proof -
  have a: "x < 2 ^ x" by (rule less_exp)
  have b: "(2::nat) ^ (x + 1) = 2 * 2 ^ x" by simp
  have "x < 2 ^ (x + 1) - 1" unfolding b using a by linarith
  then have xx: "x < length (luby_block x)" by (simp only: length_luby_block)
  show ?thesis
  proof (cases "k \<le> x")
    case True
    then obtain d where "x = k + d" using le_Suc_ex by blast
    with luby_block_prefix [OF assms, of d] show ?thesis by (simp add: luby_exponent_def)
  next
    case False
    then have "x \<le> k" by simp
    then obtain d where "k = x + d" using le_Suc_ex by blast
    with luby_block_prefix [OF xx, of d] show ?thesis by (simp add: luby_exponent_def)
  qed
qed

lemma luby_shrink_block:
  "0 \<le> x \<Longrightarrow> x < 2 ^ (s + 1) - 1 \<Longrightarrow> s \<le> 30 \<Longrightarrow>
   luby_shrink x (2 ^ (s + 1) - 1) (int s) = Some (int (luby_block s ! nat x))"
proof (induction s arbitrary: x)
  case 0
  then have "x = 0" by simp
  then show ?case by (simp add: luby_shrink.simps in_int_def)
next
  case (Suc s)
  let ?sz = "(2::int) ^ (Suc s + 1) - 1"
  let ?sz' = "(2::int) ^ (s + 1) - 1"
  have half: "(?sz - 1) div 2 = ?sz'" by simp
  have a: "(1::int) \<le> 2 ^ s" by simp
  have b: "(2::int) ^ (s + 1) = 2 * 2 ^ s" by simp
  have pos: "0 < ?sz'" unfolding b using a by linarith
  have c: "(2::int) ^ (Suc s + 1) \<le> 2 ^ 31" using Suc.prems(3) by (intro power_increasing) auto
  have c0: "(0::int) < 2 ^ (Suc s + 1)" by simp
  have rng: "in_int (?sz - 1)" unfolding in_int_def using c c0 by simp
  have rng2: "in_int (int (Suc s) - 1)" using Suc.prems(3) by (simp add: in_int_def)
  have rng3: "in_int (int s)" using Suc.prems(3) by (simp add: in_int_def)
  show ?case
  proof (cases "?sz - 1 = x")
    case True
    have "nat x = 2 ^ (Suc s + 1) - 2"
    proof -
      have "(2::nat) \<le> 2 ^ (Suc s + 1)" by simp
      then have "int (2 ^ (Suc s + 1) - 2) = 2 ^ (Suc s + 1) - 2"
        by (simp only: of_nat_diff of_nat_power of_nat_numeral)
      then have "x = int (2 ^ (Suc s + 1) - 2)" using True by simp
      then show ?thesis by (simp only: nat_int)
    qed
    then have "luby_block (Suc s) ! nat x = Suc s" using luby_block_last [of "Suc s"] by simp
    then show ?thesis using True rng by (subst luby_shrink.simps) simp
  next
    case False
    have lenb: "int (length (luby_block s)) = ?sz'" by (simp add: length_luby_block of_nat_diff)
    have xm: "x smod ?sz' = x mod ?sz'" using Suc.prems(1) pos by (simp add: smod_mod_positive)
    have xm0: "0 \<le> x mod ?sz'" and xm1: "x mod ?sz' < ?sz'" using pos by simp_all
    have e: "int (Suc s) - 1 = int s" by simp
    have nz: "?sz' \<noteq> 0" using pos by simp
    have step: "luby_shrink x ?sz (int (Suc s)) = luby_shrink (x mod ?sz') ?sz' (int s)"
      by (subst luby_shrink.simps)
         (simp only: False rng rng2 rng3 nz half xm e Let_def simp_thms if_True if_False)
    have ih: "luby_shrink (x mod ?sz') ?sz' (int s) = Some (int (luby_block s ! nat (x mod ?sz')))"
      using Suc.IH [OF xm0 xm1] Suc.prems(3) by simp
    have xlt: "x < 2 * ?sz'" using Suc.prems(2) False by simp
    have nth: "luby_block (Suc s) ! nat x = luby_block s ! nat (x mod ?sz')"
    proof (cases "x < ?sz'")
      case True
      then have "nat x < length (luby_block s)" using lenb Suc.prems(1) by linarith
      moreover have "x mod ?sz' = x" using True Suc.prems(1) by simp
      ultimately show ?thesis by (simp add: nth_append)
    next
      case ge: False
      have "(x - ?sz') mod ?sz' = x - ?sz'" using ge xlt by (intro mod_pos_pos_trivial) auto
      then have m: "x mod ?sz' = x - ?sz'" by (simp only: minus_mod_self2)
      have ge': "\<not> x < int (length (luby_block s))" using ge unfolding lenb .
      have xlt': "x < 2 * int (length (luby_block s))" using xlt unfolding lenb .
      have n1: "\<not> nat x < length (luby_block s)" using ge' Suc.prems(1) by linarith
      have n2: "nat x - length (luby_block s) < length (luby_block s)"
        using ge' xlt' Suc.prems(1) by linarith
      have "nat x - length (luby_block s) = nat (x - int (length (luby_block s)))"
        using ge' Suc.prems(1) by linarith
      then have n3: "nat x - length (luby_block s) = nat (x - ?sz')" by (simp only: lenb)
      have "luby_block (Suc s) ! nat x = (luby_block s @ [Suc s]) ! (nat x - length (luby_block s))"
        using n1 by (simp add: nth_append)
      also have "\<dots> = luby_block s ! (nat x - length (luby_block s))"
        using n2 by (simp add: nth_append)
      finally show ?thesis using n3 m by simp
    qed
    show ?thesis using step ih nth by simp
  qed
qed

lemma luby_grow_block:
  "0 \<le> x \<Longrightarrow> x < 2147483647 \<Longrightarrow> d = 30 - k \<Longrightarrow> k \<le> 30 \<Longrightarrow>
   \<exists>K. luby_grow x (2 ^ (k + 1) - 1) (int k) = Some (2 ^ (K + 1) - 1, int K) \<and>
       K \<le> 30 \<and> x < 2 ^ (K + 1) - 1"
proof (induction d arbitrary: k)
  case 0
  then have k: "k = 30" by simp
  have n: "\<not> (2::int) ^ (k + 1) - 1 < x + 1" using 0 k by simp
  have i1: "in_int (x + 1)" unfolding in_int_def using 0 by linarith
  have "luby_grow x (2 ^ (k + 1) - 1) (int k) = Some (2 ^ (k + 1) - 1, int k)"
    by (subst luby_grow.simps) (simp only: i1 n simp_thms if_True if_False)
  moreover have "x < 2 ^ (k + 1) - 1" using n by linarith
  ultimately show ?case using k by blast
next
  case (Suc d)
  have k: "k \<le> 29" using Suc by simp
  have i1: "in_int (x + 1)" unfolding in_int_def using Suc.prems by linarith
  show ?case
  proof (cases "(2::int) ^ (k + 1) - 1 < x + 1")
    case False
    have "luby_grow x (2 ^ (k + 1) - 1) (int k) = Some (2 ^ (k + 1) - 1, int k)"
      by (subst luby_grow.simps) (simp only: i1 False simp_thms if_True if_False)
    moreover have "x < 2 ^ (k + 1) - 1" using False by linarith
    ultimately show ?thesis using Suc.prems(4) by blast
  next
    case True
    have "(2::int) ^ (k + 1) \<le> 2 ^ 30" using k by (intro power_increasing) auto
    then have p: "(2::int) ^ (k + 1) \<le> 1073741824" by simp
    have p0: "(0::int) < 2 ^ (k + 1)" by simp
    have e: "2 * ((2::int) ^ (k + 1) - 1) + 1 = 2 ^ (Suc k + 1) - 1" by simp
    have e': "int k + 1 = int (Suc k)" by simp
    have i2: "in_int (int k + 1)" unfolding in_int_def using k by linarith
    have i34: "P \<le> 1073741824 \<Longrightarrow> 0 < P \<Longrightarrow>
        in_int (2 * (P - 1)) \<and> in_int (2 * (P - 1) + 1)" for P
      by (simp add: in_int_def)
    have i3: "in_int (2 * (2 ^ (k + 1) - 1))" using i34 [OF p p0] by (rule conjunct1)
    have i4: "in_int (2 * (2 ^ (k + 1) - 1) + 1)" using i34 [OF p p0] by (rule conjunct2)
    have "luby_grow x (2 ^ (k + 1) - 1) (int k) =
          luby_grow x (2 ^ (Suc k + 1) - 1) (int (Suc k))"
      using i1 i2 i3 i4 True
      by (subst luby_grow.simps) (simp only: e e' simp_thms if_True if_False)
    moreover have "\<exists>K. luby_grow x (2 ^ (Suc k + 1) - 1) (int (Suc k)) =
        Some (2 ^ (K + 1) - 1, int K) \<and> K \<le> 30 \<and> x < 2 ^ (K + 1) - 1"
      using Suc.IH [of "Suc k"] Suc.prems k by simp
    ultimately show ?thesis by simp
  qed
qed

lemma luby_general:
  assumes "0 \<le> x" "x < 2147483647"
  shows "luby y x = Some (y ^ luby_exponent (nat x))"
proof -
  obtain K where g: "luby_grow x 1 0 = Some (2 ^ (K + 1) - 1, int K)"
    and K: "K \<le> 30" and x: "x < 2 ^ (K + 1) - 1"
    using luby_grow_block [OF assms, of 30 0] by auto
  have s: "luby_shrink x (2 ^ (K + 1) - 1) (int K) = Some (int (luby_block K ! nat x))"
    using luby_shrink_block [OF assms(1) x K] .
  have "int (length (luby_block K)) = 2 ^ (K + 1) - 1"
    by (simp add: length_luby_block of_nat_diff)
  then have "nat x < length (luby_block K)" using x assms(1) by linarith
  then have "luby_block K ! nat x = luby_exponent (nat x)" by (rule luby_block_exponent)
  then show ?thesis using g s by (simp add: luby_def)
qed


lemma luby_block_3: "luby_block 3 = [0, 0, 1, 0, 0, 1, 2, 0, 0, 1, 0, 0, 1, 2, 3]"
  by (simp add: numeral_3_eq_3)

lemma luby_block_4_nth_20: "luby_block 4 ! 20 = 1"
proof -
  have "(4::nat) = Suc 3" by simp
  then have "luby_block 4 = luby_block 3 @ luby_block 3 @ [4]" by (metis luby_block.simps(2))
  then show ?thesis by (simp add: luby_block_3 nth_append)
qed

text \<open>
  Claim C8. For every \<open>k\<close> from 0 to 14, \<open>luby(2.0, k)\<close> is 2 raised to the \<open>k\<close>-th entry of
  \<open>[0,0,1,0,0,1,2,0,0,1,0,0,1,2,3]\<close>; and for every \<open>x\<close> that the \<^verbatim>\<open>int\<close> arithmetic of the
  function can handle (\<open>0 \<le> x < 2\<^sup>3\<^sup>1 - 1\<close>), \<open>luby(y, x)\<close> returns \<open>y\<close> raised to the \<open>x\<close>-th exponent
  of Luby's finite-subsequence construction.
\<close>

theorem luby_correct:
  "(\<forall>k<15. luby 2 (int k) = Some (2 ^ ([0, 0, 1, 0, 0, 1, 2, 0, 0, 1, 0, 0, 1, 2, 3] ! k))) \<and>
   (0 \<le> x \<and> x < 2147483647 \<longrightarrow> luby y x = Some (y ^ luby_exponent (nat x)))"
proof (intro conjI allI impI)
  fix k :: nat
  assume k: "k < 15"
  then have "k < length (luby_block 3)" by (simp add: luby_block_3)
  then have "luby_exponent k = luby_block 3 ! k" by (rule luby_block_exponent [symmetric])
  moreover have "luby 2 (int k) = Some (2 ^ luby_exponent (nat (int k)))"
    using k by (intro luby_general) simp_all
  ultimately show "luby 2 (int k) = Some (2 ^ ([0, 0, 1, 0, 0, 1, 2, 0, 0, 1, 0, 0, 1, 2, 3] ! k))"
    by (simp add: luby_block_3)
next
  assume "0 \<le> x \<and> x < 2147483647"
  then show "luby y x = Some (y ^ luby_exponent (nat x))" by (simp add: luby_general)
qed

theorem luby_correct_witness: "luby 2 14 = Some 8 \<and> luby 3 20 = Some 3"
proof -
  have "(14::nat) < 15" by simp
  then have a: "luby 2 (int 14) = Some (2 ^ ([0, 0, 1, 0, 0, 1, 2, 0, 0, 1, 0, 0, 1, 2, 3] ! 14))"
    using luby_correct [of 20 3] by blast
  have b: "luby 3 20 = Some (3 ^ luby_exponent (nat 20))"
    using luby_correct [of 20 3] by simp
  have "(20::nat) < length (luby_block 4)" by (simp add: length_luby_block)
  then have "luby_exponent 20 = 1" using luby_block_exponent [of 20 4] luby_block_4_nth_20 by simp
  then show ?thesis using a b by simp
qed

section \<open>Runs of the program\<close>

text \<open>The equations that evaluate a run on a concrete input.\<close>

lemma replicate_numeral: "replicate (numeral k) x = x # replicate (pred_numeral k) x"
  by (simp add: numeral_eq_Suc)

lemma upt_numeral: "[i..<numeral k] = (if i < numeral k then i # [Suc i..<numeral k] else [])"
  by (rule upt_rec)

lemmas run_defs = vec_at_def vec_set_def vec_resize_def assertion_def VariableValue_of_def
  INVALID_def Literal_of_def negate_def polarity_def var_def valid_def ClauseRef_of_def idx_def
  isLearned_def Clauses_init_def Clauses_size_def Clauses_addClause_def Clauses_removeClause_def
  Clauses_at_def Clauses_activity_def SolverStatistics_init_def Solver_init_def numVariables_def
  numClauses_def createVariables_def model_def decisionLevel_def clauseAt_def set_clauseAt_def
  literalTrue_def literalFalse_def isLockedClause_def assignLiteral_def revertTrail_def
  push_watch_def attachClause_def remove_watch_of_def detachClause_def set_watch_def
  visit_watch_def propagate_literal_def search_step_def solve_round_def analyze_step_def
  propagate_def container_def set_container_def removeSatisfiedClauses_def shuffle_def
  simplify_def increaseClauseActivity_def live_learned_indices_def prune_threshold_def
  pruneLearnedClauses_def isLiteralRedundantInConflictClause_def analyzeConflict_def
  learn_from_conflict_def search_def solve_def addClause_def Parser_init_def
  unexpected_token_def is_newline_def digit_between_def digit_of_def parse_char_def
  ends_with_def open_failure_def parseCnf_def EXIT_FAILURE_def printModel_def main_def
  exit_code_int_def MAX_LEARNED_CLAUSES_FACTOR_def RESTART_FIRST_def RESTART_INC_def luby_def
  in_int_def single_file_def newline_def Let_def replicate_numeral upt_numeral

lemmas run_loops = propagate_loop.simps propagate_watches.simps removeSatisfiedClauses_loop.simps
  search_loop.simps solve_loop.simps luby_grow.simps luby_shrink.simps show_nat.simps
  pickBranchLiteral.simps trim_clause.simps analyze_loop.simps redundant_loop.simps
  scan_trail.simps copy_watches.simps prune_loop.simps

text \<open>
  Claim C1 (the code deviates). On scenario S1 the program is specified to print \<^verbatim>\<open>UNSAT\<close> and
  to exit with 20. The run of the code: the first clause assigns \<open>x\<^sub>1\<close> and attaches nothing,
  the second clause has no surviving literal, \<^verbatim>\<open>addClause\<close> returns false and the loader
  returns early; \<^verbatim>\<open>solve\<close> then finds the count of attached clauses zero and returns UNKNOWN.
  The program prints \<^verbatim>\<open>UNKNOWN\<close> and exits with 0, for every random generator.
\<close>

theorem scenario_S1_reports_unknown:
  "\<forall>gen. \<exists>s. parseCnf gen (single_file ''f.cnf'' scenario_S1) ''f.cnf'' = Some (Inr s)
     \<and> variable_values s = [TRUE] \<and> numClauses s = 0
     \<and> addClause [Literal_of 0 False] s = Some (False, s)
     \<and> solve s = Some (UNKNOWN, s)
     \<and> main gen (single_file ''f.cnf'' scenario_S1) [''nanosat'', ''f.cnf'']
         = Some \<lparr>stdout = ''UNKNOWN'', stderr = [], exit_status = 0\<rparr>"
  by (simp add: run_defs run_loops scenario_S1_def)

text \<open>
  Claim C2 (the code deviates). After \<^verbatim>\<open>p cnf 2 3 / 1 2 0 / 1 0 / -1 0\<close> the loader has called
  \<^verbatim>\<open>addClause\<close> for \<open>x\<^sub>1 \<or> x\<^sub>2\<close>, for \<open>x\<^sub>1\<close> and for \<open>\<not> x\<^sub>1\<close>; the last call returns false, and the
  program calls \<^verbatim>\<open>solve\<close> all the same. \<^verbatim>\<open>solve\<close> returns SAT with the model \<open>x\<^sub>1\<close> true, \<open>x\<^sub>2\<close>
  false, in which the clause \<open>\<not> x\<^sub>1\<close> of the formula has no true literal. No assertion of the
  source fails on the way, and the run is the same for every random generator.
\<close>

theorem sat_model_violates_clause:
  "\<forall>gen. \<exists>s s'. parseCnf gen (single_file ''f.cnf'' unit_conflict_cnf) ''f.cnf'' = Some (Inr s)
     \<and> solve s = Some (SAT, s')
     \<and> model s' = [TRUE, FALSE]
     \<and> \<not> (\<exists>literal \<in> set [Literal_of 0 False].
            model s' ! var literal = VariableValue_of (polarity literal))
     \<and> main gen (single_file ''f.cnf'' unit_conflict_cnf) [''nanosat'', ''f.cnf'']
         = Some \<lparr>stdout = ''SAT 1 -2'', stderr = [], exit_status = 10\<rparr>"
  by (simp add: run_defs run_loops unit_conflict_cnf_def)

text \<open>
  Claim C5 (the code deviates). After \<^verbatim>\<open>p cnf 2 3 / 1 2 0 / 1 -2 0 / -1 0\<close> the last call of
  \<^verbatim>\<open>addClause\<close> propagates into a conflict and returns false; the program calls \<^verbatim>\<open>solve\<close>
  all the same. Its first simplification propagates nothing more, removes no learned clause,
  and then meets the falsified clause, whose watched literals are not unset: the assertion
  of \<^verbatim>\<open>removeSatisfiedClauses\<close> fails (\<open>removeSatisfiedClauses_loop\<close> is a total function of the
  model, so that its \<open>None\<close> is an abort and not a loop). \<^verbatim>\<open>solve\<close> does not return a status.
\<close>

theorem solve_aborts_after_conflict:
  "\<forall>gen. \<exists>s. parseCnf gen (single_file ''f.cnf'' propagation_conflict_cnf) ''f.cnf'' = Some (Inr s)
     \<and> numVariables s = 2 \<and> numClauses s = 2
     \<and> propagate s = Some (INVALID, s)
     \<and> removeSatisfiedClauses True s = Some s
     \<and> removeSatisfiedClauses False s = None
     \<and> solve s = None
     \<and> main gen (single_file ''f.cnf'' propagation_conflict_cnf) [''nanosat'', ''f.cnf''] = None"
  by (simp add: run_defs run_loops propagation_conflict_cnf_def)

text \<open>
  Claim C9 (the code deviates). With an argument count other than one path the program is
  specified to write a usage error to the standard error stream. The code writes the usage
  line to the standard output, writes nothing to the standard error stream, and exits with
  \<^verbatim>\<open>EXIT_FAILURE\<close>; here for the program called without a path.
\<close>

theorem usage_goes_to_stdout:
  "\<forall>gen fs. main gen fs [''nanosat'']
     = Some \<lparr>stdout = ''Expects `nanosat file.cnf`, `nanosat file.cnf.gz`, or `nanosat file.cnf.xz`.'',
         stderr = [], exit_status = 1\<rparr>"
  by (simp add: main_def usage_def EXIT_FAILURE_def)

section \<open>Trail consistency\<close>

lemma same_trail_refl: "same_trail s s"
  by (simp add: same_trail_def)

lemma same_trail_trans: "same_trail s s' \<Longrightarrow> same_trail s' s'' \<Longrightarrow> same_trail s s''"
  by (simp add: same_trail_def)

lemma same_trail_inv: "same_trail s s' \<Longrightarrow> trail_inv s \<Longrightarrow> trail_inv s'"
  by (simp add: same_trail_def trail_inv_def trail_consistent_def)

lemma VariableValue_of_not_UNSET: "VariableValue_of b \<noteq> UNSET"
  by (simp add: VariableValue_of_def)

lemma assignLiteral_trail:
  assumes "assignLiteral literal reason s = Some s'"
  shows "trail s' = trail s @ [literal]"
    and "var literal < length (variable_values s)"
    and "variable_values s ! var literal = UNSET"
    and "variable_values s' = (variable_values s)[var literal := VariableValue_of (polarity literal)]"
    and "trail_separators s' = trail_separators s"
  using assms
  by (auto simp: assignLiteral_def vec_at_def vec_set_def assertion_def
      split: Option.bind_splits if_splits)

lemma assignLiteral_trail_inv:
  assumes a: "assignLiteral literal reason s = Some s'" and inv: "trail_inv s"
  shows "trail_inv s'"
proof -
  note t = assignLiteral_trail [OF a]
  have fresh: "var (trail s ! i) \<noteq> var literal" if "i < length (trail s)" for i
  proof
    assume v: "var (trail s ! i) = var literal"
    from that inv have "variable_values s ! var (trail s ! i) = VariableValue_of (polarity (trail s ! i))"
      by (simp add: trail_inv_def trail_consistent_def)
    with t(3) v show False by (simp add: VariableValue_of_def split: if_splits)
  qed
  have cons: "trail_consistent s'"
    unfolding trail_consistent_def
  proof (intro allI impI)
    fix i assume "i < length (trail s')"
    then consider "i < length (trail s)" | "i = length (trail s)" using t(1) by force
    then show "var (trail s' ! i) < length (variable_values s') \<and>
        variable_values s' ! var (trail s' ! i) = VariableValue_of (polarity (trail s' ! i))"
    proof cases
      case 1
      then have "var (trail s ! i) \<noteq> var literal" by (rule fresh)
      with 1 inv show ?thesis using t
        by (auto simp: trail_inv_def trail_consistent_def nth_append)
    next
      case 2
      then show ?thesis using t by (simp add: nth_append)
    qed
  qed
  have "var literal \<notin> set (map var (trail s))"
  proof
    assume "var literal \<in> set (map var (trail s))"
    then obtain i where "i < length (trail s)" "var (trail s ! i) = var literal"
      by (auto simp: in_set_conv_nth)
    then show False using fresh by blast
  qed
  then have "distinct (map var (trail s'))" using inv t(1) by (simp add: trail_inv_def)
  moreover have "\<forall>x \<in> set (trail_separators s'). x \<le> length (trail s')"
    using inv t by (auto simp: trail_inv_def)
  ultimately show ?thesis using cons inv t(5) by (simp add: trail_inv_def)
qed

lemma distinct_map_nth:
  assumes "distinct (map f xs)" "a < length xs" "b < length xs" "f (xs ! a) = f (xs ! b)"
  shows "a = b"
proof -
  have e: "map f xs ! a = map f xs ! b" using assms by simp
  have l: "a < length (map f xs)" "b < length (map f xs)" using assms by simp_all
  show ?thesis using nth_eq_iff_index_eq [OF assms(1) l] e by simp
qed

lemma revert_entries_frame:
  "revert_entries es s = Some s' \<Longrightarrow>
     trail s' = trail s \<and> trail_separators s' = trail_separators s \<and>
     length (variable_values s') = length (variable_values s) \<and>
     (\<forall>v. v \<notin> set (map var es) \<longrightarrow> variable_values s' ! v = variable_values s ! v)"
proof (induction es arbitrary: s)
  case Nil
  then show ?case by simp
next
  case (Cons e es)
  from Cons.prems obtain vals pols where
    v: "vec_set (variable_values s) (var e) UNSET = Some vals" and
    r: "revert_entries es (s\<lparr>variable_values := vals, variable_polarity := pols,
          unset_variables := unset_variables s @ [var e]\<rparr>) = Some s'"
    by (auto split: Option.bind_splits)
  from v have vals: "vals = (variable_values s)[var e := UNSET]"
    by (auto simp: vec_set_def split: if_splits)
  from Cons.IH [OF r] show ?case by (auto simp: vals)
qed

lemma revertTrail_Some:
  assumes "revertTrail level s = Some s'" and "decisionLevel s > level"
  shows "\<exists>s1. level < length (trail_separators s) \<and>
      revert_entries (rev (drop (trail_separators s ! level) (trail s))) s = Some s1 \<and>
      s' = s1\<lparr>trail_propagation_head := trail_separators s ! level,
          trail := vec_resize (trail_separators s ! level) INVALID (trail s1),
          trail_separators := take level (trail_separators s1)\<rparr>"
  using assms
  by (simp add: revertTrail_def decisionLevel_def vec_at_def split: Option.bind_splits if_splits)

lemma revertTrail_trail:
  assumes r: "revertTrail level s = Some s'" and inv: "trail_inv s"
  shows "trail_inv s'"
    and "length (trail s') \<le> length (trail s)"
    and "\<forall>i < length (trail s'). trail s' ! i = trail s ! i"
proof -
  have "trail_inv s' \<and> length (trail s') \<le> length (trail s) \<and>
      (\<forall>i < length (trail s'). trail s' ! i = trail s ! i)"
  proof (cases "decisionLevel s > level")
    case False
    then have "s' = s" using r by (simp add: revertTrail_def)
    then show ?thesis using inv by simp
  next
    case True
    from revertTrail_Some [OF r True] obtain s1 where
      lv: "level < length (trail_separators s)" and
      e: "revert_entries (rev (drop (trail_separators s ! level) (trail s))) s = Some s1" and
      s': "s' = s1\<lparr>trail_propagation_head := trail_separators s ! level,
          trail := vec_resize (trail_separators s ! level) INVALID (trail s1),
          trail_separators := take level (trail_separators s1)\<rparr>"
      by blast
    let ?sep = "trail_separators s ! level"
    note f = revert_entries_frame [OF e]
    have f1: "trail s1 = trail s" and f2: "trail_separators s1 = trail_separators s"
      and f3: "length (variable_values s1) = length (variable_values s)" using f by simp_all
    have "?sep \<in> set (trail_separators s)" using lv by simp
    then have sep: "?sep \<le> length (trail s)" using inv by (simp add: trail_inv_def)
    have tr: "trail s' = take ?sep (trail s)"
      by (simp add: s' f1 vec_resize_def sep)
    have seps: "trail_separators s' = take level (trail_separators s)" by (simp add: s' f2)
    have vals: "variable_values s' = variable_values s1" by (simp add: s')
    have d: "distinct (map var (trail s))" using inv by (simp add: trail_inv_def)
    have cons: "trail_consistent s'"
      unfolding trail_consistent_def
    proof (intro allI impI)
      fix i assume i: "i < length (trail s')"
      then have i1: "i < ?sep" and i2: "i < length (trail s)" using tr by simp_all
      have e1: "trail s' ! i = trail s ! i" using tr i1 by simp
      have "var (trail s ! i) \<notin> set (map var (rev (drop ?sep (trail s))))"
      proof
        assume "var (trail s ! i) \<in> set (map var (rev (drop ?sep (trail s))))"
        then obtain l where l: "l \<in> set (drop ?sep (trail s))" and lv': "var l = var (trail s ! i)"
          by auto
        from l obtain k where k: "k < length (trail s) - ?sep"
          and lk: "l = trail s ! (?sep + k)"
          by (auto simp: in_set_conv_nth)
        have k2: "?sep + k < length (trail s)" using k by simp
        have "?sep + k = i"
        proof (rule distinct_map_nth [OF d k2 i2])
          show "var (trail s ! (?sep + k)) = var (trail s ! i)" using lv' lk by simp
        qed
        with i1 show False by simp
      qed
      then have "variable_values s1 ! var (trail s ! i) = variable_values s ! var (trail s ! i)"
        using f by blast
      moreover have "var (trail s ! i) < length (variable_values s) \<and>
          variable_values s ! var (trail s ! i) = VariableValue_of (polarity (trail s ! i))"
        using inv i2 by (simp add: trail_inv_def trail_consistent_def)
      ultimately show "var (trail s' ! i) < length (variable_values s') \<and>
          variable_values s' ! var (trail s' ! i) = VariableValue_of (polarity (trail s' ! i))"
        by (simp add: e1 vals f3)
    qed
    have "distinct (map var (take ?sep (trail s)))"
      using d by (simp add: take_map [symmetric] distinct_take)
    then have d': "distinct (map var (trail s'))" by (simp add: tr)
    have so: "sorted (trail_separators s)" using inv by (simp add: trail_inv_def)
    then have so': "sorted (trail_separators s')" by (simp add: seps sorted_wrt_take)
    have b: "\<forall>x \<in> set (trail_separators s'). x \<le> length (trail s')"
    proof
      fix x assume "x \<in> set (trail_separators s')"
      then have "x \<in> set (take level (trail_separators s))" by (simp add: seps)
      then obtain k where k: "k < level" and x: "x = trail_separators s ! k"
        using lv by (auto simp: in_set_conv_nth)
      have "trail_separators s ! k \<le> ?sep" using so k lv by (simp add: sorted_nth_mono)
      then show "x \<le> length (trail s')" using x sep by (simp add: tr)
    qed
    have "trail_inv s'" using cons d' so' b by (simp add: trail_inv_def)
    then show ?thesis by (simp add: tr)
  qed
  then show "trail_inv s'" and "length (trail s') \<le> length (trail s)"
    and "\<forall>i < length (trail s'). trail s' ! i = trail s ! i" by simp_all
qed

section \<open>Reasoning about results\<close>

lemma holdsD: "holds m Q \<Longrightarrow> m = Some x \<Longrightarrow> Q x"
  by (simp add: holds_def)

lemma holds_bind: "holds m (\<lambda>x. holds (f x) Q) \<Longrightarrow> holds (m \<bind> f) Q"
  by (auto simp: holds_def split: Option.bind_splits)

lemma holds_Some: "Q x \<Longrightarrow> holds (Some x) Q"
  by (simp add: holds_def)

lemma holds_None: "holds None Q"
  by (simp add: holds_def)

lemma holds_if: "(b \<Longrightarrow> holds m Q) \<Longrightarrow> (\<not> b \<Longrightarrow> holds n Q) \<Longrightarrow> holds (if b then m else n) Q"
  by simp

lemma holds_Let: "holds (f x) Q \<Longrightarrow> holds (Let x f) Q"
  by simp

lemma holds_case_prod: "(\<And>a b. x = (a, b) \<Longrightarrow> holds (f a b) Q) \<Longrightarrow> holds (case_prod f x) Q"
  by (cases x) simp

lemma holds_case_option:
  "(x = None \<Longrightarrow> holds m Q) \<Longrightarrow> (\<And>a. x = Some a \<Longrightarrow> holds (f a) Q) \<Longrightarrow>
    holds (case_option m f x) Q"
  by (cases x) simp_all

lemma holds_result: "(\<And>x. m = Some x \<Longrightarrow> Q x) \<Longrightarrow> holds m Q"
  by (simp add: holds_def)

lemmas holds_steps = holds_bind holds_Some holds_None holds_if holds_Let holds_case_prod
  holds_case_option holds_result

section \<open>What the operations leave untouched\<close>

lemma set_watch_frame: "set_watch key j w s = Some s' \<Longrightarrow> \<exists>lw. s' = s\<lparr>literals_watched_by := lw\<rparr>"
  by (auto simp: set_watch_def split: Option.bind_splits)

lemma push_watch_frame: "push_watch key w s = Some s' \<Longrightarrow> \<exists>lw. s' = s\<lparr>literals_watched_by := lw\<rparr>"
  by (auto simp: push_watch_def split: Option.bind_splits)

lemma remove_watch_of_frame:
  "remove_watch_of key w s = Some s' \<Longrightarrow> \<exists>lw. s' = s\<lparr>literals_watched_by := lw\<rparr>"
  by (auto simp: remove_watch_of_def split: Option.bind_splits)

lemma set_clauseAt_frame:
  "set_clauseAt r c s = Some s' \<Longrightarrow>
    (\<exists>cs. s' = s\<lparr>clauses := cs\<rparr>) \<or> (\<exists>cs. s' = s\<lparr>learned_clauses := cs\<rparr>)"
  by (auto simp: set_clauseAt_def split: Option.bind_splits if_splits)

lemma same_trail_simps [simp]:
  "same_trail s (s\<lparr>literals_watched_by := lw\<rparr>)"
  "same_trail s (s\<lparr>clauses := cs\<rparr>)"
  "same_trail s (s\<lparr>learned_clauses := cs\<rparr>)"
  "same_trail s (s\<lparr>trail_propagation_head := h\<rparr>)"
  "same_trail s (s\<lparr>stats := st\<rparr>)"
  "same_trail s (s\<lparr>unset_variables := u\<rparr>)"
  "same_trail s (s\<lparr>random_gen := g\<rparr>)"
  "same_trail s (s\<lparr>clause_activity_increment := a\<rparr>)"
  "same_trail s (s\<lparr>variable_polarity := vp\<rparr>)"
  by (simp_all add: same_trail_def)

lemma set_watch_same_trail: "set_watch key j w s = Some s' \<Longrightarrow> same_trail s s'"
  by (auto dest: set_watch_frame)

lemma push_watch_same_trail: "push_watch key w s = Some s' \<Longrightarrow> same_trail s s'"
  by (auto dest: push_watch_frame)

lemma remove_watch_of_same_trail: "remove_watch_of key w s = Some s' \<Longrightarrow> same_trail s s'"
  by (auto dest: remove_watch_of_frame)

lemma set_clauseAt_same_trail: "set_clauseAt r c s = Some s' \<Longrightarrow> same_trail s s'"
  by (auto dest: set_clauseAt_frame)

lemma set_watch_trail_inv: "set_watch key j w s = Some s' \<Longrightarrow> trail_inv s \<Longrightarrow> trail_inv s'"
  by (blast intro: same_trail_inv set_watch_same_trail)

lemma push_watch_trail_inv: "push_watch key w s = Some s' \<Longrightarrow> trail_inv s \<Longrightarrow> trail_inv s'"
  by (blast intro: same_trail_inv push_watch_same_trail)

lemma set_clauseAt_trail_inv: "set_clauseAt r c s = Some s' \<Longrightarrow> trail_inv s \<Longrightarrow> trail_inv s'"
  by (blast intro: same_trail_inv set_clauseAt_same_trail)

lemma trail_inv_update [simp]:
  "trail_inv (s\<lparr>literals_watched_by := lw\<rparr>) = trail_inv s"
  "trail_inv (s\<lparr>clauses := cs\<rparr>) = trail_inv s"
  "trail_inv (s\<lparr>learned_clauses := cs\<rparr>) = trail_inv s"
  "trail_inv (s\<lparr>trail_propagation_head := h\<rparr>) = trail_inv s"
  "trail_inv (s\<lparr>stats := st\<rparr>) = trail_inv s"
  "trail_inv (s\<lparr>unset_variables := u\<rparr>) = trail_inv s"
  "trail_inv (s\<lparr>random_gen := g\<rparr>) = trail_inv s"
  "trail_inv (s\<lparr>clause_activity_increment := a\<rparr>) = trail_inv s"
  "trail_inv (s\<lparr>variable_polarity := vp\<rparr>) = trail_inv s"
  "trail_inv (s\<lparr>variable_metadata := vm\<rparr>) = trail_inv s"
  "trail_inv (s\<lparr>learned_size_adjust_on_conflict := x\<rparr>) = trail_inv s"
  "trail_inv (s\<lparr>learned_size_adjust_count := c\<rparr>) = trail_inv s"
  "trail_inv (s\<lparr>max_learned_clauses := m\<rparr>) = trail_inv s"
  by (simp_all add: trail_inv_def trail_consistent_def)

lemma assignLiteral_frame:
  "assignLiteral literal reason s = Some s' \<Longrightarrow>
    \<exists>vals mds. s' = s\<lparr>variable_values := vals, variable_metadata := mds,
      trail := trail s @ [literal]\<rparr>"
  by (auto simp: assignLiteral_def split: Option.bind_splits)

lemma propagation_stableD:
  assumes "propagation_stable P"
  shows "P (s\<lparr>literals_watched_by := lw\<rparr>) = P s"
    and "P (s\<lparr>clauses := (clauses s)\<lparr>cl_clauses := cs\<rparr>\<rparr>) = P s"
    and "P (s\<lparr>learned_clauses := (learned_clauses s)\<lparr>cl_clauses := cs\<rparr>\<rparr>) = P s"
    and "P (s\<lparr>trail_propagation_head := h\<rparr>) = P s"
    and "stats s = st \<Longrightarrow> P (s\<lparr>stats := st\<lparr>num_propagations := n\<rparr>\<rparr>) = P s"
    and "assignLiteral literal reason s = Some s' \<Longrightarrow> P s \<Longrightarrow> P s'"
  using assms unfolding propagation_stable_def by auto

lemma set_watch_stable:
  "propagation_stable P \<Longrightarrow> set_watch key j w s = Some s' \<Longrightarrow> P s' = P s"
  by (auto simp: propagation_stableD dest!: set_watch_frame)

lemma push_watch_stable:
  "propagation_stable P \<Longrightarrow> push_watch key w s = Some s' \<Longrightarrow> P s' = P s"
  by (auto simp: propagation_stableD dest!: push_watch_frame)

lemma set_clauseAt_stable:
  "propagation_stable P \<Longrightarrow> set_clauseAt r c s = Some s' \<Longrightarrow> P s' = P s"
  by (auto simp: set_clauseAt_def propagation_stableD split: Option.bind_splits if_splits)

lemma visit_watch_stable:
  assumes "propagation_stable P" and "P s"
  shows "holds (visit_watch p i j conflict s) (\<lambda>(i', j', conflict', s'). P s')"
  unfolding visit_watch_def
  using assms
  by (intro holds_steps)
    (auto simp: propagation_stableD set_watch_stable push_watch_stable set_clauseAt_stable)

lemma propagate_watches_stable:
  assumes "propagation_stable P"
    and "propagate_watches p i j conflict s = Some (j', conflict', s')" and "P s"
  shows "P s'"
proof -
  have "P s \<longrightarrow> P (snd (snd (j', conflict', s')))"
  proof (rule propagate_watches.raw_induct
      [where P = "\<lambda>p i j conflict s y. P s \<longrightarrow> P (snd (snd y))", OF _ assms(2)], goal_cases)
    case (1 f p i j conflict s y)
    show ?case
      using 1(2) 1(1) visit_watch_stable [OF assms(1), of s p i j conflict]
      by (cases y) (auto simp: holds_def split: Option.bind_splits if_splits)
  qed
  with assms(3) show ?thesis by simp
qed

lemma propagate_literal_stable:
  assumes "propagation_stable P" and "propagate_literal conflict s = Some (conflict', s')" and "P s"
  shows "P s'"
proof -
  have "holds (propagate_literal conflict s) (\<lambda>(conflict', s'). P s')"
    unfolding propagate_literal_def
    apply (intro holds_steps)
    apply (clarsimp simp: propagation_stableD [OF assms(1)])
    apply (erule propagate_watches_stable [OF assms(1)])
    apply (simp add: propagation_stableD [OF assms(1)] assms(3))
    done
  with assms(2) show ?thesis by (auto simp: holds_def)
qed

lemma propagate_loop_stable:
  assumes "propagation_stable P" and "propagate_loop conflict s = Some (conflict', s')" and "P s"
  shows "P s'"
proof -
  have "P s \<longrightarrow> P (snd (conflict', s'))"
  proof (rule propagate_loop.raw_induct
      [where P = "\<lambda>conflict s y. P s \<longrightarrow> P (snd y)", OF _ assms(2)], goal_cases)
    case (1 f conflict s y)
    show ?case
      using 1(2) 1(1) propagate_literal_stable [OF assms(1), of _ s]
      by (cases y) (auto split: Option.bind_splits if_splits)
  qed
  with assms(3) show ?thesis by simp
qed

lemma propagate_stable:
  "propagation_stable P \<Longrightarrow> propagate s = Some (conflict, s') \<Longrightarrow> P s \<Longrightarrow> P s'"
  unfolding propagate_def by (rule propagate_loop_stable)

lemma trail_inv_stable: "propagation_stable trail_inv"
  unfolding propagation_stable_def
  by (intro conjI allI impI) (simp_all add: assignLiteral_trail_inv)

lemma num_clauses_stable: "propagation_stable (\<lambda>s. num_clauses (stats s) = n)"
  unfolding propagation_stable_def
  by (intro conjI allI impI) (auto dest!: assignLiteral_frame)

section \<open>A formula of unit clauses\<close>

lemma unit_loaded_num_clauses: "unit_loaded s \<Longrightarrow> num_clauses (stats s) = 0"
proof (induction rule: unit_loaded.induct)
  case (sized n gen)
  show ?case by (simp add: createVariables_def Solver_init_def SolverStatistics_init_def Let_def)
next
  case (unit s literals l s')
  from unit.hyps(2,3) obtain s1 conflict where
    a: "assignLiteral l INVALID s = Some s1" and p: "propagate s1 = Some (conflict, s')"
    by (auto simp: addClause_def split: Option.bind_splits)
  from a unit.IH have "num_clauses (stats s1) = 0" by (auto dest!: assignLiteral_frame)
  with propagate_stable [OF num_clauses_stable p] show ?case .
qed

text \<open>
  Claim C10. After \<^verbatim>\<open>createVariables(n)\<close> with \<open>n > 0\<close> and calls of \<^verbatim>\<open>addClause\<close> that each keep
  one literal, assign it and return \<^verbatim>\<open>true\<close>, no clause is attached, the statistic of attached
  clauses is zero, and \<^verbatim>\<open>solve\<close> returns \<^verbatim>\<open>UNKNOWN\<close> and leaves the solver as it is, whatever the
  values of the variables are.
\<close>

theorem unit_clauses_solve_unknown:
  "unit_loaded s \<Longrightarrow> numClauses s = 0 \<and> solve s = Some (UNKNOWN, s)"
  by (simp add: unit_loaded_num_clauses numClauses_def solve_def)

text \<open>
  The example of the claim: the unit clause \<open>x1\<close> over one variable. The call of
  \<^verbatim>\<open>addClause\<close> returns \<^verbatim>\<open>true\<close>, the variable has the value true, and \<^verbatim>\<open>solve\<close> returns
  \<^verbatim>\<open>UNKNOWN\<close>.
\<close>

theorem unit_clauses_solve_unknown_witness:
  "map_option fst unit_x1 = Some True \<and>
   map_option (model \<circ> snd) unit_x1 = Some [TRUE] \<and>
   map_option (unit_loaded \<circ> snd) unit_x1 = Some True \<and>
   map_option (solve \<circ> snd) unit_x1 = map_option (\<lambda>(r, s). Some (UNKNOWN, s)) unit_x1"
proof -
  obtain s where s: "unit_x1 = Some (True, s)" and m: "model s = [TRUE]"
    by (simp add: unit_x1_def run_defs run_loops)
  have "unit_loaded (createVariables 1 (Solver_init (sconst 0)))"
    by (rule unit_loaded.sized) simp
  moreover have "addClause_pass (createVariables 1 (Solver_init (sconst 0))) INVALID []
      (sort_key unat [Literal_of 0 True]) = Some (Some [Literal_of 0 True])"
    by (simp add: run_defs)
  ultimately have u: "unit_loaded s"
    using s unfolding unit_x1_def by (rule unit_loaded.unit)
  show ?thesis
    unfolding s using unit_clauses_solve_unknown [OF u] m u by simp
qed

section \<open>The trail invariant through the operations\<close>

lemma attachClause_same_trail: "attachClause literals l s = Some (r, s') \<Longrightarrow> same_trail s s'"
  by (auto simp: attachClause_def push_watch_def same_trail_def split: Option.bind_splits if_splits)

lemma detachClause_same_trail: "detachClause r s = Some s' \<Longrightarrow> same_trail s s'"
  by (auto simp: detachClause_def remove_watch_of_def same_trail_def
      split: Option.bind_splits if_splits)

lemma increaseClauseActivity_same_trail: "increaseClauseActivity r s = Some s' \<Longrightarrow> same_trail s s'"
  by (auto simp: increaseClauseActivity_def same_trail_def Let_def split: Option.bind_splits if_splits)

lemma same_trail_set_container [simp]: "same_trail s (set_container l c s)"
  by (simp add: set_container_def)

lemma removeSatisfiedClauses_loop_same_trail:
  "holds (removeSatisfiedClauses_loop l i s) (same_trail s)"
proof (induction l i s rule: removeSatisfiedClauses_loop.induct)
  case (1 l i s)
  note IH = "1.IH" [THEN holdsD]
  show ?case
    apply (subst removeSatisfiedClauses_loop.simps)
    apply (intro holds_steps)
       apply (erule (3) IH(1) [OF _ refl])
      apply (blast intro: same_trail_trans detachClause_same_trail IH(2) [OF _ refl])
     apply (rule same_trail_trans [OF same_trail_set_container])
     apply (erule IH(3) [OF _ refl]; assumption)
    apply (rule same_trail_refl)
    done
qed

lemma removeSatisfiedClauses_same_trail:
  "removeSatisfiedClauses l s = Some s' \<Longrightarrow> same_trail s s'"
  unfolding removeSatisfiedClauses_def
  by (rule holdsD [OF removeSatisfiedClauses_loop_same_trail])

lemma pickBranchLiteral_same_trail: "holds (pickBranchLiteral s) (\<lambda>(next_literal, s'). same_trail s s')"
proof (induction s rule: pickBranchLiteral.induct)
  case (1 s)
  note IH = "1.IH" [THEN holdsD]
  show ?case
    apply (subst pickBranchLiteral.simps)
    apply (intro holds_steps)
      apply (simp add: same_trail_def)
     apply (drule (1) IH [OF _ refl refl refl], auto simp: same_trail_def)[1]
    apply (simp add: same_trail_refl)
    done
qed

lemma prune_loop_same_trail: "holds (prune_loop t i s) (same_trail s)"
proof (induction t i s rule: prune_loop.induct)
  case (1 t i s)
  note IH = "1.IH" [THEN holdsD]
  show ?case
    apply (subst prune_loop.simps)
    apply (intro holds_steps)
          apply (erule (3) IH(1) [OF _ refl])
         apply (blast intro: same_trail_trans detachClause_same_trail IH(2) [OF _ refl])
        apply (erule IH(3) [OF _ refl]; assumption)
       apply (erule IH(4) [OF _ refl]; assumption)
      apply (erule IH(5) [OF _ refl]; assumption)
    apply (rule same_trail_refl)
    done
qed

lemma pruneLearnedClauses_same_trail: "pruneLearnedClauses s = Some s' \<Longrightarrow> same_trail s s'"
  by (auto simp: pruneLearnedClauses_def split: Option.bind_splits
      dest: holdsD [OF prune_loop_same_trail])

lemma analyze_step_same_trail:
  "holds (analyze_step conflict literal a s) (\<lambda>(conflict', literal', a', s'). same_trail s s')"
  unfolding analyze_step_def
  by (intro holds_steps)
    (auto intro: increaseClauseActivity_same_trail same_trail_refl split: if_splits)

lemma analyze_loop_same_trail:
  assumes "analyze_loop conflict literal a s = Some (literal', a', s')"
  shows "same_trail s s'"
proof -
  have "same_trail s (snd (snd (literal', a', s')))"
  proof (rule analyze_loop.raw_induct
      [where P = "\<lambda>conflict literal a s y. same_trail s (snd (snd y))", OF _ assms], goal_cases)
    case (1 f conflict literal a s y)
    show ?case
      using 1(2) 1(1) analyze_step_same_trail [of conflict literal a s]
      by (cases y) (auto simp: holds_def split: Option.bind_splits if_splits,
          blast intro: same_trail_trans)
  qed
  then show ?thesis by simp
qed

lemma analyzeConflict_same_trail:
  "analyzeConflict conflict s = Some (level, learned, s') \<Longrightarrow> same_trail s s'"
proof -
  have "holds (analyzeConflict conflict s) (\<lambda>(level, learned, s'). same_trail s s')"
    unfolding analyzeConflict_def
    by (intro holds_steps) (auto dest: analyze_loop_same_trail)
  then show "analyzeConflict conflict s = Some (level, learned, s') \<Longrightarrow> same_trail s s'"
    by (auto simp: holds_def)
qed

lemma simplify_trail_inv:
  assumes "trail_inv s"
  shows "holds (simplify s) (\<lambda>(ok, s'). trail_inv s')"
  unfolding simplify_def
  using assms
  by (intro holds_steps)
    (auto dest!: propagate_stable [OF trail_inv_stable] removeSatisfiedClauses_same_trail
      dest: same_trail_inv)

lemma revertTrail_trail_inv: "revertTrail level s = Some s' \<Longrightarrow> trail_inv s \<Longrightarrow> trail_inv s'"
  by (rule revertTrail_trail(1))

lemma learn_from_conflict_trail_inv:
  assumes "trail_inv s"
  shows "holds (learn_from_conflict conflict s) trail_inv"
  unfolding learn_from_conflict_def
  using assms
  by (intro holds_steps)
    (auto dest!: analyzeConflict_same_trail attachClause_same_trail
      increaseClauseActivity_same_trail
      dest: same_trail_inv revertTrail_trail_inv assignLiteral_trail_inv)

lemma decide_trail_inv:
  assumes "trail_inv s"
  shows "trail_inv (s\<lparr>trail_separators := trail_separators s @ [length (trail s)]\<rparr>)"
  using assms by (auto simp: trail_inv_def trail_consistent_def sorted_append)

lemma propagate_trail_inv: "propagate s = Some (conflict, s') \<Longrightarrow> trail_inv s \<Longrightarrow> trail_inv s'"
  by (rule propagate_stable [OF trail_inv_stable])

lemma simplify_trail_inv': "simplify s = Some (ok, s') \<Longrightarrow> trail_inv s \<Longrightarrow> trail_inv s'"
  using simplify_trail_inv [of s] by (auto simp: holds_def)

lemma learn_from_conflict_trail_inv':
  "learn_from_conflict conflict s = Some s' \<Longrightarrow> trail_inv s \<Longrightarrow> trail_inv s'"
  using learn_from_conflict_trail_inv [of s] by (auto simp: holds_def)

lemma pruneLearnedClauses_trail_inv:
  "pruneLearnedClauses s = Some s' \<Longrightarrow> trail_inv s \<Longrightarrow> trail_inv s'"
  by (blast intro: same_trail_inv pruneLearnedClauses_same_trail)

lemma pickBranchLiteral_trail_inv:
  "pickBranchLiteral s = Some (next_literal, s') \<Longrightarrow> trail_inv s \<Longrightarrow> trail_inv s'"
  using pickBranchLiteral_same_trail [of s] by (auto simp: holds_def dest: same_trail_inv)

lemma attachClause_trail_inv:
  "attachClause literals l s = Some (r, s') \<Longrightarrow> trail_inv s \<Longrightarrow> trail_inv s'"
  by (blast intro: same_trail_inv attachClause_same_trail)

lemma trail_inv_vcg:
  "\<And>Q. trail_inv s \<Longrightarrow> (\<And>r s'. trail_inv s' \<Longrightarrow> Q (r, s')) \<Longrightarrow> holds (propagate s) Q"
  "\<And>Q. trail_inv s \<Longrightarrow> (\<And>r s'. trail_inv s' \<Longrightarrow> Q (r, s')) \<Longrightarrow> holds (simplify s) Q"
  "\<And>Q. trail_inv s \<Longrightarrow> (\<And>r s'. trail_inv s' \<Longrightarrow> Q (r, s')) \<Longrightarrow> holds (pickBranchLiteral s) Q"
  "\<And>Q. trail_inv s \<Longrightarrow> (\<And>r s'. trail_inv s' \<Longrightarrow> Q (r, s')) \<Longrightarrow>
    holds (attachClause literals l s) Q"
  "\<And>Q. trail_inv s \<Longrightarrow> (\<And>s'. trail_inv s' \<Longrightarrow> Q s') \<Longrightarrow> holds (learn_from_conflict conflict s) Q"
  "\<And>Q. trail_inv s \<Longrightarrow> (\<And>s'. trail_inv s' \<Longrightarrow> Q s') \<Longrightarrow> holds (pruneLearnedClauses s) Q"
  "\<And>Q. trail_inv s \<Longrightarrow> (\<And>s'. trail_inv s' \<Longrightarrow> Q s') \<Longrightarrow> holds (assignLiteral literal reason s) Q"
  "\<And>Q. trail_inv s \<Longrightarrow> (\<And>s'. trail_inv s' \<Longrightarrow> Q s') \<Longrightarrow> holds (revertTrail level s) Q"
  unfolding holds_def
  using propagate_trail_inv [of s] simplify_trail_inv' [of s] pickBranchLiteral_trail_inv [of s]
    attachClause_trail_inv [of literals l s] learn_from_conflict_trail_inv' [of conflict s]
    pruneLearnedClauses_trail_inv [of s] assignLiteral_trail_inv [of literal reason s]
    revertTrail_trail_inv [of level s]
  by simp_all

lemmas holds_vcg = holds_bind holds_Some holds_None holds_if holds_Let holds_case_prod
  holds_case_option

lemma search_step_trail_inv:
  assumes "trail_inv s"
  shows "holds (search_step allowed n s) (\<lambda>(r, s'). trail_inv s')"
  unfolding search_step_def
  using assms
  by (intro holds_vcg trail_inv_vcg holds_result) (simp_all add: decide_trail_inv)

lemma search_loop_trail_inv:
  assumes "search_loop allowed n s = Some (status, s')" and "trail_inv s"
  shows "trail_inv s'"
proof -
  have "trail_inv s \<longrightarrow> trail_inv (snd (status, s'))"
  proof (rule search_loop.raw_induct
      [where P = "\<lambda>allowed n s y. trail_inv s \<longrightarrow> trail_inv (snd y)", OF _ assms(1)], goal_cases)
    case (1 f allowed n s y)
    show ?case
      using 1(2) 1(1) search_step_trail_inv [of s allowed n]
      by (cases y) (auto simp: holds_def split: Option.bind_splits sum.splits)
  qed
  with assms(2) show ?thesis by simp
qed

lemma search_trail_inv: "search allowed s = Some (status, s') \<Longrightarrow> trail_inv s \<Longrightarrow> trail_inv s'"
  unfolding search_def by (rule search_loop_trail_inv)

lemma solve_round_trail_inv:
  "solve_round s = Some (status, s') \<Longrightarrow> trail_inv s \<Longrightarrow> trail_inv s'"
  by (auto simp: solve_round_def Let_def split: Option.bind_splits dest: search_trail_inv)

lemma solve_loop_trail_inv:
  assumes "solve_loop s = Some (status, s')" and "trail_inv s"
  shows "trail_inv s'"
proof -
  have "trail_inv s \<longrightarrow> trail_inv (snd (status, s'))"
  proof (rule solve_loop.raw_induct
      [where P = "\<lambda>s y. trail_inv s \<longrightarrow> trail_inv (snd y)", OF _ assms(1)], goal_cases)
    case (1 f s y)
    show ?case
      using 1(2) 1(1) solve_round_trail_inv [of s]
      by (cases y) (auto split: Option.bind_splits if_splits)
  qed
  with assms(2) show ?thesis by simp
qed

lemma solve_trail_inv:
  assumes "solve s = Some (status, s')" and "trail_inv s"
  shows "trail_inv s'"
proof -
  have "holds (solve s) (\<lambda>(status, s'). trail_inv s')"
    unfolding solve_def
    using assms(2)
    by (intro holds_vcg trail_inv_vcg holds_result) (auto dest: solve_loop_trail_inv)
  with assms(1) show ?thesis by (auto simp: holds_def)
qed

lemma addClause_trail_inv: "addClause literals s = Some (r, s') \<Longrightarrow> trail_inv s \<Longrightarrow> trail_inv s'"
  by (auto simp: addClause_def split: Option.bind_splits if_splits option.splits
      dest: assignLiteral_trail_inv propagate_trail_inv attachClause_trail_inv)

lemma createVariables_trail_inv:
  "trail_inv s \<Longrightarrow> trail s = [] \<Longrightarrow> trail_inv (createVariables n s)"
  by (simp add: trail_inv_def trail_consistent_def createVariables_def Let_def)

lemma Solver_init_trail_inv: "trail_inv (Solver_init gen)"
  by (simp add: trail_inv_def trail_consistent_def Solver_init_def)

lemma reachable_trail_inv: "reachable s \<Longrightarrow> trail_inv s"
proof (induction rule: reachable.induct)
  case (fresh gen)
  show ?case by (rule Solver_init_trail_inv)
next
  case (createVariables s n)
  then show ?case by (simp add: createVariables_trail_inv)
next
  case (addClause s literals r s')
  then show ?case by (blast intro: addClause_trail_inv)
next
  case (solve s status s')
  then show ?case by (blast intro: solve_trail_inv)
next
  case (search s n status s')
  then show ?case by (blast intro: search_trail_inv)
next
  case (propagate s conflict s')
  then show ?case by (blast intro: propagate_trail_inv)
next
  case (simplify s r s')
  then show ?case by (blast intro: simplify_trail_inv')
next
  case (assignLiteral s literal reason s')
  then show ?case by (blast intro: assignLiteral_trail_inv)
next
  case (revertTrail s level s')
  then show ?case by (blast intro: revertTrail_trail_inv)
next
  case (analyzeConflict s conflict level learned s')
  then show ?case by (blast intro: same_trail_inv analyzeConflict_same_trail)
next
  case (attachClause s literals is_learned r' s')
  then show ?case by (blast intro: attachClause_trail_inv)
next
  case (detachClause s r' s')
  then show ?case by (blast intro: same_trail_inv detachClause_same_trail)
next
  case (removeSatisfiedClauses s is_learned s')
  then show ?case by (blast intro: same_trail_inv removeSatisfiedClauses_same_trail)
next
  case (pruneLearnedClauses s s')
  then show ?case by (blast intro: pruneLearnedClauses_trail_inv)
next
  case (increaseClauseActivity s r' s')
  then show ?case by (blast intro: same_trail_inv increaseClauseActivity_same_trail)
next
  case (pickBranchLiteral s next_literal s')
  then show ?case by (blast intro: pickBranchLiteral_trail_inv)
qed

section \<open>Trail consistency\<close>

text \<open>
  Claim C7. Trail consistency holds in every state between operations: in every state
  that the member functions of the solver reach from a fresh solver (\<^verbatim>\<open>createVariables\<close> sizing
  it before anything is assigned), every trail entry's variable has the value of the entry's
  polarity. A call of \<^verbatim>\<open>assignLiteral\<close> that returns has pushed its literal, the literal's
  variable has the literal's polarity, and the trail is consistent; a call of \<^verbatim>\<open>revertTrail\<close>
  that returns leaves a prefix of the trail, and the trail is consistent.
\<close>

theorem trail_consistency_invariant:
  assumes "reachable s"
  shows "trail_consistent s \<and>
    (\<forall>literal reason s'. assignLiteral literal reason s = Some s' \<longrightarrow>
       trail s' = trail s @ [literal] \<and> var literal < length (variable_values s') \<and>
       variable_values s' ! var literal = VariableValue_of (polarity literal) \<and>
       trail_consistent s') \<and>
    (\<forall>level s'. revertTrail level s = Some s' \<longrightarrow>
       trail s' = take (length (trail s')) (trail s) \<and> trail_consistent s')"
proof (intro conjI allI impI)
  from assms have inv: "trail_inv s" by (rule reachable_trail_inv)
  then show "trail_consistent s" by (simp add: trail_inv_def)
  {
    fix literal reason s'
    assume a: "assignLiteral literal reason s = Some s'"
    from assignLiteral_trail_inv [OF a inv] show "trail_consistent s'" by (simp add: trail_inv_def)
    from a show "trail s' = trail s @ [literal]"
      and "var literal < length (variable_values s')"
      and "variable_values s' ! var literal = VariableValue_of (polarity literal)"
      by (auto simp: assignLiteral_def vec_set_def vec_at_def split: Option.bind_splits if_splits)
  }
  {
    fix level s'
    assume r: "revertTrail level s = Some s'"
    from revertTrail_trail [OF r inv] show "trail_consistent s'"
      and "trail s' = take (length (trail s')) (trail s)"
      by (simp_all add: trail_inv_def list_eq_iff_nth_eq)
  }
qed

theorem trail_consistency_invariant_witness:
  "map_option (\<lambda>s. (reachable s, trail_consistent s, trail s, variable_values s)) three_var_solved =
     Some (True, True, [2, 0, 5], [FALSE, FALSE, TRUE]) \<and>
   map_option (\<lambda>s. (trail_consistent s, trail s, variable_values s)) three_var_reverted =
     Some (True, [2], [UNSET, FALSE, UNSET]) \<and>
   map_option (\<lambda>s. (trail_consistent s, trail s, variable_values s)) three_var_assigned =
     Some (True, [2, 1], [TRUE, FALSE, UNSET])"
proof -
  let ?s0 = "createVariables 3 (Solver_init (sconst 0))"
  let ?c = "[Literal_of 0 True, Literal_of 1 True, Literal_of 2 True]"
  define s1 where "s1 = snd (the (addClause ?c ?s0))"
  define s where "s = snd (the (solve s1))"
  define s2 where "s2 = the (revertTrail 1 s)"
  define s3 where "s3 = the (assignLiteral (Literal_of 0 True) INVALID s2)"
  have a: "addClause ?c ?s0 = Some (True, s1)"
    unfolding s1_def by (simp add: run_defs run_loops)
  have b: "solve s1 = Some (SAT, s)"
    unfolding s_def s1_def by (simp add: run_defs run_loops)
  have t: "trail s = [2, 0, 5]" "variable_values s = [FALSE, FALSE, TRUE]"
    unfolding s_def s1_def by (simp_all add: run_defs run_loops)
  have r: "revertTrail 1 s = Some s2"
    unfolding s2_def s_def s1_def by (simp add: run_defs run_loops)
  have t2: "trail s2 = [2]" "variable_values s2 = [UNSET, FALSE, UNSET]"
    unfolding s2_def s_def s1_def by (simp_all add: run_defs run_loops)
  have l: "assignLiteral (Literal_of 0 True) INVALID s2 = Some s3"
    unfolding s3_def s2_def s_def s1_def by (simp add: run_defs run_loops)
  have t3: "variable_values s3 = [TRUE, FALSE, UNSET]"
    unfolding s3_def s2_def s_def s1_def by (simp add: run_defs run_loops)
  have "reachable ?s0"
    by (rule reachable.createVariables [OF reachable.fresh]) (simp add: Solver_init_def)
  then have "reachable s1" using a by (rule reachable.addClause)
  then have rs: "reachable s" using b by (rule reachable.solve)
  then have rs2: "reachable s2" using r by (rule reachable.revertTrail)
  have e: "three_var_solved = Some s" "three_var_reverted = Some s2" "three_var_assigned = Some s3"
    using a b r l
    by (simp_all add: three_var_solved_def three_var_reverted_def three_var_assigned_def)
  from trail_consistency_invariant [OF rs] r
  have c: "trail_consistent s" "trail_consistent s2" by blast+
  from trail_consistency_invariant [OF rs2] l
  have c3: "trail_consistent s3" "trail s3 = trail s2 @ [Literal_of 0 True]" by blast+
  show ?thesis
    unfolding e using rs c c3 t t2 t3 by (simp add: Literal_of_def)
qed

section \<open>Pruning the learned clauses\<close>

lemma map_option_bind: "map_option f (m \<bind> g) = m \<bind> (\<lambda>x. map_option f (g x))"
  by (cases m) simp_all

lemma map_option_snd_record:
  "m \<bind> (\<lambda>x. map_option snd (case x of (removed, s') \<Rightarrow> Some (f removed, s'))) =
    map_option snd m"
  by (cases m) auto

lemma prune_trace_loop: "map_option snd (prune_trace t i s) = prune_loop t i s"
proof (induction t i s rule: prune_loop.induct)
  case (1 t i s)
  note IH = "1.IH" [OF _ refl, unfolded Suc_eq_plus1 [symmetric]]
  show ?case
    apply (subst prune_trace.simps)
    apply (subst prune_loop.simps)
    apply (simp add: Let_def map_option_bind map_option_snd_record if_distrib [of "map_option snd"] IH
        cong: Option.bind_cong if_cong)
    done
qed

lemma pruneLearnedClauses_trace_result:
  "map_option snd (pruneLearnedClauses_trace s) = pruneLearnedClauses s"
  by (simp add: pruneLearnedClauses_trace_def pruneLearnedClauses_def map_option_bind
      prune_trace_loop)

lemma isLearned_ClauseRef_of [simp]: "isLearned (ClauseRef_of i True)"
  unfolding isLearned_def ClauseRef_of_def by (simp add: and_one_eq mod_2_eq_odd)

lemma Clauses_at_valid: "Clauses_at c r = Some clause \<Longrightarrow> valid r"
  by (auto simp: Clauses_at_def assertion_def split: Option.bind_splits if_splits)

lemma isLockedClause_locked:
  assumes "isLockedClause s r = Some b" and "valid r"
  shows "b = locked s r"
proof -
  from assms(1) obtain clause where c: "clauseAt s r = Some clause" and n: "clause \<noteq> []"
    by (auto simp: isLockedClause_def vec_at_def split: Option.bind_splits if_splits)
  then obtain c0 rest where e: "clause = c0 # rest" by (cases clause) auto
  from assms show ?thesis
    by (auto simp: isLockedClause_def locked_def c e vec_at_def literalTrue_def
        split: Option.bind_splits if_splits)
qed

lemma prune_trace_unlocked:
  "holds (prune_trace t i s)
     (\<lambda>(removed, s'). \<forall>(r, x) \<in> set removed. isLearned r \<and> valid r \<and> isLockedClause x r = Some False)"
proof (induction t i s rule: prune_trace.induct)
  case (1 t i s)
  note IH = "1.IH" [THEN holdsD]
  show ?case
    apply (subst prune_trace.simps)
    apply (intro holds_steps)
         apply (erule (3) IH(1) [OF _ refl])
        apply (frule (9) IH(2) [OF _ refl])
        apply (clarsimp dest!: Clauses_at_valid)
       apply (erule IH(3) [OF _ refl]; assumption)
      apply (erule IH(4) [OF _ refl]; assumption)
     apply (erule IH(5) [OF _ refl]; assumption)
    apply simp
    done
qed

text \<open>
  Claim C6. Every call of \<^verbatim>\<open>detachClause\<close> that \<^verbatim>\<open>pruneLearnedClauses\<close> makes is for a learned clause
  that is not locked in the state of the call: \<^verbatim>\<open>isLockedClause\<close> returns \<^verbatim>\<open>false\<close> there, and
  the clause is not locked in the specification's sense (its first literal true and the
  reason of that literal's variable the clause itself). The record of the calls belongs to
  the run of \<^verbatim>\<open>pruneLearnedClauses\<close>: both end in the same state.
\<close>

theorem pruning_spares_locked_clauses:
  assumes "pruneLearnedClauses_trace s = Some (removed, s')"
  shows "pruneLearnedClauses s = Some s' \<and>
    (\<forall>(r, s_at) \<in> set removed.
       isLearned r \<and> isLockedClause s_at r = Some False \<and> \<not> locked s_at r)"
proof
  from pruneLearnedClauses_trace_result [of s] assms show "pruneLearnedClauses s = Some s'"
    by simp
  from assms obtain t where "prune_trace t 0 s = Some (removed, s')"
    by (auto simp: pruneLearnedClauses_trace_def split: Option.bind_splits)
  from holdsD [OF prune_trace_unlocked this]
  show "\<forall>(r, s_at) \<in> set removed.
      isLearned r \<and> isLockedClause s_at r = Some False \<and> \<not> locked s_at r"
    by (auto dest: isLockedClause_locked)
qed

text \<open>
  In the example the first learned clause is locked and stays, the second is not locked, has
  an activity below the threshold and is detached, and the other two have an activity above
  the threshold.
\<close>

theorem pruning_spares_locked_clauses_witness:
  "map_option (\<lambda>s. (locked s (ClauseRef_of 0 True), locked s (ClauseRef_of 1 True))) prune_example =
     Some (True, False) \<and>
   map_option (map fst \<circ> fst) (prune_example \<bind> pruneLearnedClauses_trace) =
     Some [ClauseRef_of 1 True] \<and>
   map_option (\<lambda>s'. cl_clauses (learned_clauses s')) (prune_example \<bind> pruneLearnedClauses) =
     Some [[1, 3, 5], [], [0, 5, 6], [1, 2, 7]]"
proof -
  define s where "s = the prune_example"
  define removed where "removed = fst (the (pruneLearnedClauses_trace s))"
  define s' where "s' = snd (the (pruneLearnedClauses_trace s))"
  note ev = prune_example_def pruneLearnedClauses_trace_def locked_def run_defs run_loops
    prune_trace.simps
  have e: "prune_example = Some s"
    unfolding s_def by (simp add: ev)
  have t: "pruneLearnedClauses_trace s = Some (removed, s')"
    unfolding removed_def s'_def s_def by (simp add: ev)
  have l: "locked s (ClauseRef_of 0 True)" "map fst removed = [ClauseRef_of 1 True]"
    "cl_clauses (learned_clauses s') = [[1, 3, 5], [], [0, 5, 6], [1, 2, 7]]"
    unfolding removed_def s'_def s_def by (simp_all add: ev)
  from l(2) obtain s_at where r: "removed = [(ClauseRef_of 1 True, s_at)]" by auto
  have s_at: "s_at = s"
    using r unfolding removed_def s_def by (simp add: ev)
  from pruning_spares_locked_clauses [OF t] r s_at
  have p: "pruneLearnedClauses s = Some s'" and u: "\<not> locked s (ClauseRef_of 1 True)" by auto
  show ?thesis
    unfolding e using t l p u by simp
qed

section \<open>The pruning threshold and the pruned clauses\<close>

lemma map_insort_key: "map f (insort_key f x ys) = insort (f x) (map f ys)"
  by (induction ys) simp_all

lemma map_sort_key: "map f (sort_key f xs) = sort (map f xs)"
  by (induction xs) (simp_all add: map_insort_key)

lemma unat_ClauseRef_of:
  assumes "i < 2 ^ 31"
  shows "unat (ClauseRef_of i b) = 2 * i + of_bool b"
proof -
  have e: "ClauseRef_of i b = word_of_nat (2 * i + of_bool b)"
    by (simp add: ClauseRef_of_def)
  have "2 * i + of_bool b < (2 ^ 32 :: nat)" using assms by (cases b) simp_all
  then have "(2 * i + of_bool b) mod 2 ^ LENGTH(32) = 2 * i + of_bool b" by simp
  then show ?thesis unfolding e unat_of_nat .
qed

lemma idx_ClauseRef_of:
  assumes "i < 2 ^ 31"
  shows "idx (ClauseRef_of i b) = i"
proof -
  have "idx (ClauseRef_of i b) = unat (ClauseRef_of i b) div 2"
    unfolding idx_def by (simp add: unat_div drop_bit_Suc)
  then show ?thesis by (simp add: unat_ClauseRef_of [OF assms])
qed

lemma valid_ClauseRef_of:
  assumes "Suc i < 2 ^ 31"
  shows "valid (ClauseRef_of i b)"
  unfolding valid_def
proof
  assume "ClauseRef_of i b = INVALID"
  then have "unat (ClauseRef_of i b) = unat (- 1 :: 32 word)" by (simp add: INVALID_def)
  moreover from assms have "i < 2 ^ 31" by simp
  ultimately show False using assms by (cases b) (simp_all add: unat_ClauseRef_of unsigned_minus_1_eq_mask mask_eq_exp_minus_1)
qed

lemma those_map_Some:
  "those (map f xs) = Some ys \<Longrightarrow> ys = map (\<lambda>x. the (f x)) xs \<and> (\<forall>x \<in> set xs. f x \<noteq> None)"
  by (induction xs arbitrary: ys) (auto split: option.splits)

lemma Clauses_at_nth:
  assumes "i < 2 ^ 31" and "Clauses_at c (ClauseRef_of i b) = Some clause"
  shows "clause = cl_clauses c ! i" and "i < length (cl_clauses c)"
  using assms(2)
  by (auto simp: Clauses_at_def vec_at_def idx_ClauseRef_of [OF assms(1)]
      split: Option.bind_splits if_splits)

lemma Clauses_activity_nth:
  assumes "i < 2 ^ 31" and "Clauses_activity c (ClauseRef_of i b) = Some a"
  shows "a = activities c ! i" and "i < length (activities c)"
  using assms(2)
  by (auto simp: Clauses_activity_def vec_at_def idx_ClauseRef_of [OF assms(1)]
      split: Option.bind_splits if_splits)

lemma filter_zip_upt:
  "map fst (filter (\<lambda>(i, c). P c) (zip [0..<length xs] xs)) =
    filter (\<lambda>i. P (xs ! i)) [0..<length xs]"
proof (induction xs rule: rev_induct)
  case Nil
  show ?case by simp
next
  case (snoc x xs)
  have "filter (\<lambda>i. P ((xs @ [x]) ! i)) [0..<length xs] = filter (\<lambda>i. P (xs ! i)) [0..<length xs]"
    by (rule filter_cong) (simp_all add: nth_append)
  with snoc show ?case by simp
qed

lemma live_learned_indices_eq:
  assumes "Clauses_size (learned_clauses s) < 2 ^ 31" and "live_learned_indices s = Some ind"
  shows "ind = filter (live_learned s) [0..<Clauses_size (learned_clauses s)]"
proof -
  let ?cl = "cl_clauses (learned_clauses s)"
  let ?n = "length ?cl"
  let ?g = "\<lambda>i. Clauses_at (learned_clauses s) (ClauseRef_of i True)"
  from assms(2) obtain cs where cs: "those (map ?g [0..<?n]) = Some cs"
    and ind: "ind = map fst (filter (\<lambda>(i, c). c \<noteq> []) (zip [0..<length cs] cs))"
    by (auto simp: live_learned_indices_def Clauses_size_def)
  from those_map_Some [OF cs]
  have c: "cs = map (\<lambda>i. the (?g i)) [0..<?n]" and d: "\<forall>i \<in> set [0..<?n]. ?g i \<noteq> None"
    by simp_all
  have "the (?g i) = ?cl ! i" if "i < ?n" for i
  proof -
    from that assms(1) have b: "i < 2 ^ 31" by (simp add: Clauses_size_def)
    from d that have "?g i \<noteq> None" by simp
    then obtain clause where g: "?g i = Some clause" by blast
    from Clauses_at_nth(1) [OF b g] g show ?thesis by simp
  qed
  then have "cs = map (\<lambda>i. ?cl ! i) [0..<?n]" unfolding c by simp
  then have "cs = ?cl" by (simp add: map_nth)
  moreover have "filter (\<lambda>i. ?cl ! i \<noteq> []) [0..<?n] = filter (live_learned s) [0..<?n]"
    by (rule filter_cong) (simp_all add: live_learned_def Clauses_size_def)
  ultimately show ?thesis
    unfolding ind by (simp add: filter_zip_upt Clauses_size_def)
qed

lemma prune_threshold_slots:
  assumes "Clauses_size (learned_clauses s) < 2 ^ 31" and "prune_threshold s = Some t"
  shows "t = slots_threshold s"
proof -
  let ?n = "Clauses_size (learned_clauses s)"
  let ?h = "\<lambda>i. Clauses_activity (learned_clauses s) (ClauseRef_of i True)"
  from assms(2) obtain ind acts m median where
    ind: "live_learned_indices s = Some ind" and
    acts: "those (map ?h ind) = Some acts" and
    med: "vec_at (sort_key snd (zip ind acts)) (length (sort_key snd (zip ind acts)) div 2) =
      Some (m, median)" and
    t: "t = min median (clause_activity_increment s / real ?n)"
    by (auto simp: prune_threshold_def Let_def split: Option.bind_splits)
  note i = live_learned_indices_eq [OF assms(1) ind]
  from those_map_Some [OF acts]
  have a: "acts = map (\<lambda>i. the (?h i)) ind" and d: "\<forall>i \<in> set ind. ?h i \<noteq> None"
    by simp_all
  have "the (?h k) = activities (learned_clauses s) ! k" if "k \<in> set ind" for k
  proof -
    from that assms(1) have b: "k < 2 ^ 31" unfolding i by simp
    from d that have "?h k \<noteq> None" by simp
    then obtain x where g: "?h k = Some x" by blast
    from Clauses_activity_nth(1) [OF b g] g show ?thesis by simp
  qed
  then have "acts = map (\<lambda>i. activities (learned_clauses s) ! i) ind" unfolding a by simp
  then have l: "acts = live_activities s" unfolding i live_activities_def .
  have len: "length ind = length acts" unfolding a by simp
  let ?k = "length acts div 2"
  from med len have k: "?k < length acts" and "sort_key snd (zip ind acts) ! ?k = (m, median)"
    by (auto simp: vec_at_def split: if_splits)
  then have "median = map snd (sort_key snd (zip ind acts)) ! ?k" using len by simp
  also have "\<dots> = sort acts ! ?k" using len by (simp add: map_sort_key)
  finally have "median = median_activity s" by (simp add: median_activity_def l)
  with t show ?thesis by (simp add: slots_threshold_def)
qed

lemma isLockedClause_watches [simp]:
  "isLockedClause (s\<lparr>literals_watched_by := lw\<rparr>) r = isLockedClause s r"
  by (simp add: isLockedClause_def clauseAt_def literalTrue_def cong: if_cong)

lemma detachClause_unlocked:
  assumes "detachClause r s = Some s1" and "isLockedClause s r = Some False" and "isLearned r"
  shows "variable_values s1 = variable_values s \<and> variable_metadata s1 = variable_metadata s \<and>
    Clauses_removeClause r (learned_clauses s) = Some (learned_clauses s1)"
proof -
  have "holds (detachClause r s) (\<lambda>s1. variable_values s1 = variable_values s \<and>
      variable_metadata s1 = variable_metadata s \<and>
      Clauses_removeClause r (learned_clauses s) = Some (learned_clauses s1))"
    unfolding detachClause_def
    using assms(2,3)
    by (intro holds_steps) (auto dest!: remove_watch_of_frame)
  from holdsD [OF this assms(1)] show ?thesis .
qed

lemma Clauses_removeClause_last:
  assumes "Clauses_removeClause r c = Some c'" and "Suc (idx r) = length (cl_clauses c)"
  shows "Clauses_size c' = idx r"
  using assms
  by (auto simp: Clauses_removeClause_def Clauses_size_def split: if_splits Option.bind_splits)

lemma Clauses_removeClause_other:
  assumes "Clauses_removeClause r c = Some c'" and "Suc (idx r) \<noteq> length (cl_clauses c)"
  shows "cl_clauses c' = (cl_clauses c)[idx r := []] \<and> activities c' = (activities c)[idx r := 0]"
  using assms
  by (auto simp: Clauses_removeClause_def vec_set_def split: if_splits Option.bind_splits)

lemma prunable_cong:
  assumes "variable_values s1 = variable_values s" and "variable_metadata s1 = variable_metadata s"
    and "Clauses_size (learned_clauses s1) = Clauses_size (learned_clauses s)"
    and "cl_clauses (learned_clauses s1) ! k = cl_clauses (learned_clauses s) ! k"
    and "activities (learned_clauses s1) ! k = activities (learned_clauses s) ! k"
    and "k < 2 ^ 31"
  shows "prunable s1 t k = prunable s t k"
proof -
  have "clauseAt s1 (ClauseRef_of k True) = clauseAt s (ClauseRef_of k True)"
    using assms(3,4)
    by (simp add: clauseAt_def Clauses_at_def vec_at_def Clauses_size_def
        idx_ClauseRef_of [OF assms(6)])
  then have "locked s1 (ClauseRef_of k True) = locked s (ClauseRef_of k True)"
    unfolding locked_def assms(1,2) by simp
  then show ?thesis
    using assms(3-5) by (simp add: prunable_def live_learned_def)
qed

lemma prunable_after_detach:
  assumes d: "detachClause (ClauseRef_of i True) s = Some s1"
    and u: "isLockedClause s (ClauseRef_of i True) = Some False"
    and i: "i < Clauses_size (learned_clauses s)" and n: "Clauses_size (learned_clauses s) < 2 ^ 31"
  shows "filter (prunable s1 t) [Suc i..<Clauses_size (learned_clauses s1)] =
    filter (prunable s t) [Suc i..<Clauses_size (learned_clauses s)]"
proof -
  let ?r = "ClauseRef_of i True"
  from i n have b: "i < 2 ^ 31" by simp
  note x = idx_ClauseRef_of [OF b, of True]
  from detachClause_unlocked [OF d u] have v: "variable_values s1 = variable_values s"
    and m: "variable_metadata s1 = variable_metadata s"
    and c: "Clauses_removeClause ?r (learned_clauses s) = Some (learned_clauses s1)"
    by simp_all
  show ?thesis
  proof (cases "Suc i = Clauses_size (learned_clauses s)")
    case True
    with Clauses_removeClause_last [OF c] x have "Clauses_size (learned_clauses s1) = i"
      by (simp add: Clauses_size_def)
    with True show ?thesis by simp
  next
    case False
    with Clauses_removeClause_other [OF c] x
    have e: "cl_clauses (learned_clauses s1) = (cl_clauses (learned_clauses s))[i := []]"
      "activities (learned_clauses s1) = (activities (learned_clauses s))[i := 0]"
      by (simp_all add: Clauses_size_def)
    then have z: "Clauses_size (learned_clauses s1) = Clauses_size (learned_clauses s)"
      by (simp add: Clauses_size_def)
    show ?thesis
      unfolding z
    proof (rule filter_cong [OF refl])
      fix k
      assume "k \<in> set [Suc i..<Clauses_size (learned_clauses s)]"
      with n have "k \<noteq> i" and "k < 2 ^ 31" by simp_all
      with e show "prunable s1 t k = prunable s t k"
        by (intro prunable_cong v m z) simp_all
    qed
  qed
qed

lemma prunable_at:
  assumes "i < 2 ^ 31" and "Clauses_at (learned_clauses s) (ClauseRef_of i True) = Some clause"
  shows "prunable s t i \<longleftrightarrow>
    clause \<noteq> [] \<and> 2 < length clause \<and> activities (learned_clauses s) ! i < t \<and>
    \<not> locked s (ClauseRef_of i True)"
  using Clauses_at_nth [OF assms] by (auto simp: prunable_def live_learned_def Clauses_size_def)

lemma detachClause_size_bound:
  "detachClause r s = Some s1 \<Longrightarrow> Clauses_size (learned_clauses s) < n \<Longrightarrow>
    Clauses_size (learned_clauses s1) < n"
  using detachClause_size [of r s s1 True] by (simp add: container_def)

lemma prune_trace_prunable:
  "Clauses_size (learned_clauses s) < 2 ^ 31 \<Longrightarrow>
    holds (prune_trace t i s) (\<lambda>(removed, s').
      map fst removed = map (\<lambda>k. ClauseRef_of k True)
        (filter (prunable s t) [i..<Clauses_size (learned_clauses s)]))"
proof (induction t i s rule: prune_trace.induct)
  case (1 t i s)
  note IH = "1.IH" [THEN holdsD]
  note n = "1.prems"
  let ?r = "ClauseRef_of i True"
  show ?case
  proof (cases "i < Clauses_size (learned_clauses s)")
    case False
    then show ?thesis by (subst prune_trace.simps) (simp add: holds_def)
  next
    case True
    with n have b: "i < 2 ^ 31" by simp
    note u = upt_conv_Cons [OF True]
    show ?thesis
      apply (subst prune_trace.simps)
      apply (intro holds_steps)
      subgoal premises p for clause res
        using IH(1) [OF p(1) refl p(2) p(3) n p(4)] prunable_at [OF b p(2), of t] p(3)
        by (auto simp: u)
      subgoal premises p for clause a lck s1 res removed s'
      proof -
        from p(7,8) have l: "isLockedClause s ?r = Some False" by simp
        from isLockedClause_locked [OF l Clauses_at_valid [OF p(2)]]
        have "\<not> locked s ?r" by simp
        with prunable_at [OF b p(2), of t] p(3,4,6) Clauses_activity_nth(1) [OF b p(5)]
        have pr: "prunable s t i" by simp
        have sz: "Clauses_size (learned_clauses s1) < 2 ^ 31"
          by (rule detachClause_size_bound [OF p(9) n])
        from IH(2) [OF p(1) refl p(2) p(3) p(4) p(5) p(6) p(7) p(8) p(9) sz p(10)] p(11)
        have "map fst removed = map (\<lambda>k. ClauseRef_of k True)
            (filter (prunable s1 t) [Suc i..<Clauses_size (learned_clauses s1)])"
          by simp
        with prunable_after_detach [OF p(9) l p(1) n, of t] pr show ?thesis
          by (simp add: u)
      qed
      subgoal premises p for clause a lck res
      proof -
        from p(7,8) have l: "isLockedClause s ?r = Some True" by simp
        from isLockedClause_locked [OF l Clauses_at_valid [OF p(2)]]
        have "locked s ?r" by simp
        with prunable_at [OF b p(2), of t] have "\<not> prunable s t i" by simp
        with IH(3) [OF p(1) refl p(2) p(3) p(4) p(5) p(6) p(7) p(8) n p(9)] show ?thesis
          by (auto simp: u)
      qed
      subgoal premises p for clause a res
      proof -
        from prunable_at [OF b p(2), of t] p(6) Clauses_activity_nth(1) [OF b p(5)]
        have "\<not> prunable s t i" by simp
        with IH(4) [OF p(1) refl p(2) p(3) p(4) p(5) p(6) n p(7)] show ?thesis
          by (auto simp: u)
      qed
      subgoal premises p for clause res
      proof -
        from prunable_at [OF b p(2), of t] p(4) have "\<not> prunable s t i" by simp
        with IH(5) [OF p(1) refl p(2) p(3) p(4) n p(5)] show ?thesis
          by (auto simp: u)
      qed
      subgoal using True by simp
      done
  qed
qed

text \<open>
  Claim C4, as stated, fails: the second operand of the threshold divides by the number of
  slots of the learned arena, the empty ones included (\<^verbatim>\<open>learned_clauses.size()\<close>), not by the
  number of live learned clauses. In the example after one pruning there are four slots and
  three live clauses, the increment is 1 and the median activity is 1: the threshold of the
  code is \<open>1 / 4\<close>, the one of the claim \<open>1 / 3\<close>.
\<close>

theorem threshold_divides_by_slots:
  "prune_threshold pruned_example = Some (1 / 4) \<and> claimed_threshold pruned_example = 1 / 3"
proof -
  note ev = pruned_example_def prune_example_def run_defs run_loops
  have "prune_threshold pruned_example = Some (1 / 4)"
    by (simp add: ev)
  moreover have "claimed_threshold pruned_example = 1 / 3"
    by (simp add: claimed_threshold_def median_activity_def live_activities_def live_learned_def ev)
  ultimately show ?thesis ..
qed

text \<open>
  Claim C4, amended. For a learned arena of fewer than \<open>2\<^sup>3\<^sup>1\<close> slots (a clause reference
  has 31 bits for the index): the pruning threshold is the minimum of the median activity of
  the live learned clauses and the activity increment divided by the number of slots of the
  learned arena, live and empty; and the clauses that \<^verbatim>\<open>pruneLearnedClauses\<close> detaches are, in
  the order of the slots, exactly the live learned clauses longer than two literals, of an
  activity below the threshold and not locked.
\<close>

theorem pruning_threshold_and_pruned_clauses:
  assumes "Clauses_size (learned_clauses s) < 2 ^ 31"
    and "pruneLearnedClauses_trace s = Some (removed, s')"
  shows "prune_threshold s = Some (slots_threshold s) \<and> pruneLearnedClauses s = Some s' \<and>
    map fst removed = map (\<lambda>i. ClauseRef_of i True)
      (filter (prunable s (slots_threshold s)) [0..<Clauses_size (learned_clauses s)])"
proof -
  from assms(2) obtain t where t: "prune_threshold s = Some t"
    and r: "prune_trace t 0 s = Some (removed, s')"
    by (auto simp: pruneLearnedClauses_trace_def split: Option.bind_splits)
  from prune_threshold_slots [OF assms(1) t] have e: "t = slots_threshold s" .
  from pruneLearnedClauses_trace_result [of s] assms(2) have "pruneLearnedClauses s = Some s'"
    by simp
  moreover from holdsD [OF prune_trace_prunable [OF assms(1)] r]
  have "map fst removed = map (\<lambda>i. ClauseRef_of i True)
      (filter (prunable s t) [0..<Clauses_size (learned_clauses s)])"
    by simp
  ultimately show ?thesis using t unfolding e by simp
qed

theorem pruning_threshold_and_pruned_clauses_witness:
  "map_option (\<lambda>s. (Clauses_size (learned_clauses s), prune_threshold s, slots_threshold s,
       filter (prunable s (1 / 4)) [0..<4])) prune_example =
     Some (4, Some (1 / 4), 1 / 4, [1]) \<and>
   map_option (map fst \<circ> fst) (prune_example \<bind> pruneLearnedClauses_trace) =
     Some [ClauseRef_of 1 True]"
proof -
  define s where "s = the prune_example"
  define removed where "removed = fst (the (pruneLearnedClauses_trace s))"
  define s' where "s' = snd (the (pruneLearnedClauses_trace s))"
  note ev = prune_example_def pruneLearnedClauses_trace_def run_defs run_loops prune_trace.simps
  have e: "prune_example = Some s"
    unfolding s_def by (simp add: ev)
  have t: "pruneLearnedClauses_trace s = Some (removed, s')"
    unfolding removed_def s'_def s_def by (simp add: ev)
  have n: "Clauses_size (learned_clauses s) = 4"
    unfolding s_def by (simp add: ev)
  have p: "prune_threshold s = Some (1 / 4)"
    unfolding s_def by (simp add: ev)
  have "Clauses_size (learned_clauses s) < 2 ^ 31" unfolding n by simp
  from pruning_threshold_and_pruned_clauses [OF this t]
  have th: "prune_threshold s = Some (slots_threshold s)"
    and b0: "map fst removed = map (\<lambda>i. ClauseRef_of i True)
      (filter (prunable s (slots_threshold s)) [0..<Clauses_size (learned_clauses s)])"
    by simp_all
  from th p have a: "slots_threshold s = 1 / 4" by simp
  have b: "map fst removed = map (\<lambda>i. ClauseRef_of i True) (filter (prunable s (1 / 4)) [0..<4])"
    using b0 unfolding a n .
  have c: "map fst removed = [ClauseRef_of 1 True]"
    unfolding removed_def s_def by (simp add: ev)
  have i: "inj_on (\<lambda>i. ClauseRef_of i True) {0..<4}"
    by (rule inj_on_inverseI [where g = idx]) (simp add: idx_ClauseRef_of)
  have "map (\<lambda>i. ClauseRef_of i True) (filter (prunable s (1 / 4)) [0..<4]) =
      map (\<lambda>i. ClauseRef_of i True) [1]"
    using b c by simp
  then have d: "filter (prunable s (1 / 4)) [0..<4] = [1]"
    by (rule inj_on_map_eq_map [THEN iffD1, rotated]) (rule inj_on_subset [OF i], auto)
  show ?thesis
    unfolding e using t n p a c d by simp
qed

end
